theory Spec2Isabelle
  imports Complex_Main
begin

text \<open>
  A collaborative-filtering recommender: an identity index that gives users and
  entities dense slots, two embedding matrices with a row a slot, training by gradient
  steps, ranking by dot product, and export to and import from a document.
\<close>

section \<open>Values of the host language\<close>

text \<open>
  \<^verbatim>\<open>storage.ts\<close>: \<^verbatim>\<open>type Id = string | number\<close>. Identifiers are opaque keys; a
  numeric identifier is taken to be an integer. Slots, sizes and the numbers of the
  configuration are natural numbers; the count of a query is an integer, since a
  negative count has a meaning to \<^verbatim>\<open>slice\<close>.
\<close>

datatype Id = IdStr string | IdNum int

text \<open>
  A JavaScript array may have holes, and reading a hole or reading past the end gives
  \<^verbatim>\<open>undefined\<close>. An array of \<open>'a\<close> is a list of \<open>'a option\<close>, with \<open>None\<close> for
  \<^verbatim>\<open>undefined\<close>. \<open>array_get xs i\<close> is \<^verbatim>\<open>xs[i]\<close>; \<open>array_set xs i v\<close> is
  \<^verbatim>\<open>xs[i] = v\<close>, which overwrites inside the array, appends at its end, and pads with
  holes beyond it.
\<close>

definition array_get :: "'a option list \<Rightarrow> nat \<Rightarrow> 'a option" where
  "array_get xs i = (if i < length xs then xs ! i else None)"

definition array_set :: "'a option list \<Rightarrow> nat \<Rightarrow> 'a \<Rightarrow> 'a option list" where
  "array_set xs i v =
     (if i < length xs then xs[i := Some v]
      else xs @ replicate (i - length xs) None @ [Some v])"

text \<open>
  \<^verbatim>\<open>Array.prototype.slice(start, end)\<close>: a negative bound counts from the end of the
  array, and both bounds are clamped to the array.
\<close>

definition slice_bound :: "nat \<Rightarrow> int \<Rightarrow> nat" where
  "slice_bound len b = (if b < 0 then nat (max (int len + b) 0) else nat (min b (int len)))"

definition slice :: "'a list \<Rightarrow> int \<Rightarrow> int \<Rightarrow> 'a list" where
  "slice xs start end =
     (let k = slice_bound (length xs) start; final = slice_bound (length xs) end
      in take (final - k) (drop k xs))"

text \<open>
  A \<^verbatim>\<open>Map\<close> keeps its entries in insertion order, one entry a key. It is the list of
  its entries: \<^verbatim>\<open>set\<close> on a key that is present replaces the value where the entry
  stands, \<^verbatim>\<open>set\<close> on a new key appends the entry. \<^verbatim>\<open>new Map(entries)\<close> sets the
  entries one after the other; \<^verbatim>\<open>Array.from(m.entries())\<close> is the list itself.
\<close>

type_synonym ('k, 'v) Map = "('k \<times> 'v) list"

definition Map_get :: "('k, 'v) Map \<Rightarrow> 'k \<Rightarrow> 'v option" where
  "Map_get m k = map_of m k"

definition Map_has :: "('k, 'v) Map \<Rightarrow> 'k \<Rightarrow> bool" where
  "Map_has m k = (Map_get m k \<noteq> None)"

fun Map_set :: "('k, 'v) Map \<Rightarrow> 'k \<Rightarrow> 'v \<Rightarrow> ('k, 'v) Map" where
  "Map_set [] k v = [(k, v)]"
| "Map_set ((k', v') # m) k v = (if k' = k then (k, v) # m else (k', v') # Map_set m k v)"

definition Map_size :: "('k, 'v) Map \<Rightarrow> nat" where
  "Map_size m = length m"

definition Map_new :: "('k \<times> 'v) list \<Rightarrow> ('k, 'v) Map" where
  "Map_new entries = foldl (\<lambda>m (k, v). Map_set m k v) [] entries"

definition Map_entries :: "('k, 'v) Map \<Rightarrow> ('k \<times> 'v) list" where
  "Map_entries m = m"

section \<open>The in-memory identity index (\<^verbatim>\<open>memory-storage.ts\<close>)\<close>

record SerializableStorageData =
  sd_userMap :: "(Id \<times> nat) list"
  sd_entityMap :: "(Id \<times> nat) list"
  sd_reverseUserMap :: "Id option list"
  sd_reverseEntityMap :: "Id option list"

record InMemoryStorage =
  userMap :: "(Id, nat) Map"
  entityMap :: "(Id, nat) Map"
  reverseUserMap :: "Id option list"
  reverseEntityMap :: "Id option list"

text \<open>\<^verbatim>\<open>new InMemoryStorage()\<close>: the field initialisers.\<close>

definition InMemoryStorage_new :: InMemoryStorage where
  "InMemoryStorage_new =
     \<lparr>userMap = [], entityMap = [], reverseUserMap = [], reverseEntityMap = []\<rparr>"

definition getUserIndex :: "InMemoryStorage \<Rightarrow> Id \<Rightarrow> nat option" where
  "getUserIndex st ident =
     (if Map_has (userMap st) ident then Map_get (userMap st) ident else None)"

text \<open>
  The mutating operations return the result and the storage after the call.
\<close>

definition getOrCreateUserIndex :: "InMemoryStorage \<Rightarrow> Id \<Rightarrow> nat option \<times> InMemoryStorage" where
  "getOrCreateUserIndex st ident =
     (let st' =
        (if \<not> Map_has (userMap st) ident then
           (let idx = Map_size (userMap st)
            in st\<lparr>userMap := Map_set (userMap st) ident idx,
                  reverseUserMap := array_set (reverseUserMap st) idx ident\<rparr>)
         else st)
      in (Map_get (userMap st') ident, st'))"

definition getEntityIndex :: "InMemoryStorage \<Rightarrow> Id \<Rightarrow> nat option" where
  "getEntityIndex st ident =
     (if Map_has (entityMap st) ident then Map_get (entityMap st) ident else None)"

definition getOrCreateEntityIndex :: "InMemoryStorage \<Rightarrow> Id \<Rightarrow> nat option \<times> InMemoryStorage" where
  "getOrCreateEntityIndex st ident =
     (let st' =
        (if \<not> Map_has (entityMap st) ident then
           (let idx = Map_size (entityMap st)
            in st\<lparr>entityMap := Map_set (entityMap st) ident idx,
                  reverseEntityMap := array_set (reverseEntityMap st) idx ident\<rparr>)
         else st)
      in (Map_get (entityMap st') ident, st'))"

definition getAllUsers :: "InMemoryStorage \<Rightarrow> Id option list" where
  "getAllUsers st = reverseUserMap st"

definition getAllEntities :: "InMemoryStorage \<Rightarrow> Id option list" where
  "getAllEntities st = reverseEntityMap st"

definition exportData :: "InMemoryStorage \<Rightarrow> SerializableStorageData" where
  "exportData st =
     \<lparr>sd_userMap = Map_entries (userMap st),
      sd_entityMap = Map_entries (entityMap st),
      sd_reverseUserMap = reverseUserMap st,
      sd_reverseEntityMap = reverseEntityMap st\<rparr>"

definition importData :: "InMemoryStorage \<Rightarrow> SerializableStorageData \<Rightarrow> InMemoryStorage" where
  "importData st d =
     st\<lparr>userMap := Map_new (sd_userMap d),
        entityMap := Map_new (sd_entityMap d),
        reverseUserMap := sd_reverseUserMap d,
        reverseEntityMap := sd_reverseEntityMap d\<rparr>"

text \<open>
  A sequence of registration calls on one storage, in the order they are made.
\<close>

datatype call = CreateUser Id | CreateEntity Id

fun apply_call :: "InMemoryStorage \<Rightarrow> call \<Rightarrow> InMemoryStorage" where
  "apply_call st (CreateUser u) = snd (getOrCreateUserIndex st u)"
| "apply_call st (CreateEntity e) = snd (getOrCreateEntityIndex st e)"

definition apply_calls :: "InMemoryStorage \<Rightarrow> call list \<Rightarrow> InMemoryStorage" where
  "apply_calls st cs = foldl apply_call st cs"

fun called_users :: "call list \<Rightarrow> Id list" where
  "called_users [] = []"
| "called_users (CreateUser u # cs) = u # called_users cs"
| "called_users (CreateEntity e # cs) = called_users cs"

fun called_entities :: "call list \<Rightarrow> Id list" where
  "called_entities [] = []"
| "called_entities (CreateUser u # cs) = called_entities cs"
| "called_entities (CreateEntity e # cs) = e # called_entities cs"

text \<open>
  The state of one slot space that the index maintains: the forward map lists the
  identifiers with the slots \<open>0, 1, \<dots>\<close> in order, no identifier twice, and the reverse
  array holds at each slot the identifier that owns it.
\<close>

definition dense :: "(Id, nat) Map \<Rightarrow> Id option list \<Rightarrow> bool" where
  "dense m r \<longleftrightarrow>
     distinct (map fst m) \<and> map snd m = [0..<length m] \<and> r = map (Some \<circ> fst) m"

definition dense_storage :: "InMemoryStorage \<Rightarrow> bool" where
  "dense_storage st \<longleftrightarrow>
     dense (userMap st) (reverseUserMap st) \<and> dense (entityMap st) (reverseEntityMap st)"

section \<open>The numeric engine\<close>

text \<open>
  The matrices live in the numeric library the code calls (\<^verbatim>\<open>tf\<close>). A rank-2 tensor
  is its rows together with its second dimension, which an empty tensor has as well;
  its first dimension is the number of rows. Numbers are real numbers: not-a-number
  values and the rounding of arithmetic are outside this model; the rounding of a
  number that is stored in a tensor is \<open>fround\<close> below.
\<close>

datatype error = NotInitialized | TypeError | EngineError

record tensor =
  rows :: "real list list"
  cols :: nat

definition shape0 :: "tensor \<Rightarrow> nat" where
  "shape0 t = length (rows t)"

text \<open>The tensor of shape \<open>[n, d]\<close> whose entry at \<open>(i, j)\<close> is \<open>f i j\<close>.\<close>

definition tensor_of :: "nat \<Rightarrow> nat \<Rightarrow> (nat \<Rightarrow> nat \<Rightarrow> real) \<Rightarrow> tensor" where
  "tensor_of n d f = \<lparr>rows = map (\<lambda>i. map (f i) [0..<d]) [0..<n], cols = d\<rparr>"

text \<open>\<^verbatim>\<open>tf.zeros([n, d])\<close>.\<close>

definition zeros :: "nat \<Rightarrow> nat \<Rightarrow> tensor" where
  "zeros n d = tensor_of n d (\<lambda>i j. 0)"

text \<open>
  \<^verbatim>\<open>tf.concat(tensors, 0)\<close>: at least one tensor, all of one second dimension.
\<close>

definition concat0 :: "tensor list \<Rightarrow> error + tensor" where
  "concat0 ts =
     (case ts of
        [] \<Rightarrow> Inl EngineError
      | t # us \<Rightarrow>
          if list_all (\<lambda>u. cols u = cols t) us
          then Inr \<lparr>rows = concat (map rows ts), cols = cols t\<rparr>
          else Inl EngineError)"

text \<open>
  \<^verbatim>\<open>t.slice([i, 0], [1, d])\<close>: the first \<open>d\<close> entries of row \<open>i\<close>, as a tensor of shape
  \<open>[1, d]\<close>; the library rejects a slice that leaves the tensor.
\<close>

definition slice_row :: "tensor \<Rightarrow> nat \<Rightarrow> nat \<Rightarrow> error + tensor" where
  "slice_row t i d =
     (if i + 1 \<le> shape0 t \<and> d \<le> cols t
      then Inr \<lparr>rows = [take d (rows t ! i)], cols = d\<rparr>
      else Inl EngineError)"

definition dot :: "real list \<Rightarrow> real list \<Rightarrow> real" where
  "dot xs ys = sum_list (map2 (*) xs ys)"

text \<open>
  \<^verbatim>\<open>tf.matMul(a, v.transpose()).reshape([-1])\<close> read back with \<^verbatim>\<open>array()\<close>, for \<open>v\<close>
  of shape \<open>[1, d]\<close>: one score a row of \<open>a\<close>; the inner dimensions must agree.
\<close>

definition matMul_transpose :: "tensor \<Rightarrow> tensor \<Rightarrow> error + real list" where
  "matMul_transpose a v =
     (case rows v of
        [w] \<Rightarrow> if cols a = cols v then Inr (map (\<lambda>r. dot r w) (rows a)) else Inl EngineError
      | _ \<Rightarrow> Inl EngineError)"

text \<open>
  What the code asks of the library beyond tensor bookkeeping is left open, as
  parameters over a state \<open>'e\<close> of the library (its random generator and the
  optimizer's accumulators):
  \<^item> \<open>train_adam lr\<close>: the state with a fresh optimizer, \<^verbatim>\<open>tf.train.adam(lr)\<close>;
  \<^item> \<open>randomNormal e n d\<close>: the entries of \<^verbatim>\<open>tf.randomNormal([n, d])\<close>;
  \<^item> \<open>minimize e u v userIdx entityIdx d target\<close>: one step of
    \<^verbatim>\<open>optimizer.minimize\<close> on the squared error between \<open>target\<close> and the dot product
    of row \<open>userIdx\<close> of \<open>u\<close> and row \<open>entityIdx\<close> of \<open>v\<close>; the step throws, or it gives
    the new entries of both variables, which keep their shapes;
  \<^item> \<open>fround x\<close>: the single-precision number that a tensor stores for \<open>x\<close>.
\<close>

record 'e engine =
  train_adam :: "real \<Rightarrow> 'e"
  randomNormal :: "'e \<Rightarrow> nat \<Rightarrow> nat \<Rightarrow> 'e \<times> (nat \<Rightarrow> nat \<Rightarrow> real)"
  minimize :: "'e \<Rightarrow> tensor \<Rightarrow> tensor \<Rightarrow> nat \<Rightarrow> nat \<Rightarrow> nat \<Rightarrow> real
                 \<Rightarrow> error + 'e \<times> (nat \<Rightarrow> nat \<Rightarrow> real) \<times> (nat \<Rightarrow> nat \<Rightarrow> real)"
  fround :: "real \<Rightarrow> real"

text \<open>The entries that the library gives, as a tensor stores them.\<close>

definition stored :: "'e engine \<Rightarrow> (nat \<Rightarrow> nat \<Rightarrow> real) \<Rightarrow> nat \<Rightarrow> nat \<Rightarrow> real" where
  "stored ops f = (\<lambda>i j. fround ops (f i j))"

text \<open>\<^verbatim>\<open>variable.assign\<close> of new entries: the shape stays.\<close>

definition assign :: "tensor \<Rightarrow> (nat \<Rightarrow> nat \<Rightarrow> real) \<Rightarrow> tensor" where
  "assign t f = tensor_of (shape0 t) (cols t) f"

text \<open>A tensor whose rows all have the length its second dimension says.\<close>

definition well_shaped :: "tensor \<Rightarrow> bool" where
  "well_shaped t \<longleftrightarrow> list_all (\<lambda>r. length r = cols t) (rows t)"

text \<open>
  The library keeps a tensor as a shape and a flat array of numbers, and does not
  compare the two when a tensor is made. \<open>rechunk n c xs\<close> is the rows of a tensor of
  shape \<open>[n, c]\<close> over the flat data \<open>xs\<close>: each row but the last takes \<open>c\<close> numbers, and
  the last row holds what remains, so that data that are not \<open>n * c\<close> many are kept as
  they are. Of a tensor whose data are not as many as its shape says, this model
  follows the library in \<^verbatim>\<open>array()\<close>, which throws; what the other operations of the
  library compute of such a tensor, they compute here of these rows.
\<close>

fun rechunk :: "nat \<Rightarrow> nat \<Rightarrow> 'a list \<Rightarrow> 'a list list" where
  "rechunk 0 c xs = []"
| "rechunk (Suc 0) c xs = [xs]"
| "rechunk (Suc (Suc n)) c xs = take c xs # rechunk (Suc n) c (drop c xs)"

text \<open>
  \<^verbatim>\<open>tf.tensor2d(values)\<close>: the shape is read off the array and its first row, so the
  empty array, which shows one dimension only, is rejected; the data are the numbers
  of all rows in order, rounded to single precision. Rows that differ in length are
  accepted: the numbers are then cut into rows anew, and may be more or fewer than the
  shape says.
\<close>

definition tensor2d :: "'e engine \<Rightarrow> real list list \<Rightarrow> error + tensor" where
  "tensor2d ops values =
     (case values of
        [] \<Rightarrow> Inl EngineError
      | r # rs \<Rightarrow>
          Inr \<lparr>rows = rechunk (length values) (length r) (map (fround ops) (concat values)),
               cols = length r\<rparr>)"

text \<open>
  \<^verbatim>\<open>t.array()\<close>: the nested array of a tensor. A tensor whose shape has no entries
  reads back as the empty array; otherwise the data must be as many as the shape says,
  or the call throws.
\<close>

definition array :: "tensor \<Rightarrow> error + real list list" where
  "array t =
     (if shape0 t * cols t = 0 then Inr []
      else if length (concat (rows t)) = shape0 t * cols t
      then Inr (rechunk (shape0 t) (cols t) (concat (rows t)))
      else Inl EngineError)"

section \<open>The recommender (\<^verbatim>\<open>recommendation.ts\<close>)\<close>

record config =
  c_epoch :: nat
  c_embeddingSize :: nat
  c_learningRate :: real
  c_batchSize :: nat

record SerializedModel =
  sm_config :: config
  sm_userEmbeddings :: "real list list"
  sm_entityEmbeddings :: "real list list"
  sm_userMap :: "(Id \<times> nat) list"
  sm_entityMap :: "(Id \<times> nat) list"
  sm_reverseUserMap :: "Id option list"
  sm_reverseEntityMap :: "Id option list"
  sm_initialized :: bool
  sm_version :: string

record Interaction =
  user :: Id
  entity :: Id
  rating :: "real option"

record RecommendationOptions =
  o_epoch :: "nat option"
  o_embeddingSize :: "nat option"
  o_learningRate :: "real option"
  o_storage :: "InMemoryStorage option"
  o_batchSize :: "nat option"

text \<open>
  The object: \<open>userEmbeddings\<close> and \<open>entityEmbeddings\<close> are \<^verbatim>\<open>undefined\<close> (\<open>None\<close>)
  until they are assigned; \<open>engine\<close> is the state of the library, which holds what
  \<^verbatim>\<open>this.optimizer\<close> accumulates; \<open>initialized\<close> is the private \<^verbatim>\<open>_initialized\<close>.
\<close>

record 'e Recommendation =
  storage :: InMemoryStorage
  userEmbeddings :: "tensor option"
  entityEmbeddings :: "tensor option"
  engine :: 'e
  embeddingSize :: nat
  learningRate :: real
  epoch :: nat
  batchSize :: nat
  initialized :: bool

definition Recommendation_new :: "'e engine \<Rightarrow> RecommendationOptions \<Rightarrow> 'e Recommendation" where
  "Recommendation_new ops options =
     (let lr = (case o_learningRate options of None \<Rightarrow> 5 / 100 | Some x \<Rightarrow> x)
      in \<lparr>storage = (case o_storage options of None \<Rightarrow> InMemoryStorage_new | Some s \<Rightarrow> s),
          userEmbeddings = None,
          entityEmbeddings = None,
          engine = train_adam ops lr,
          embeddingSize = (case o_embeddingSize options of None \<Rightarrow> 16 | Some x \<Rightarrow> x),
          learningRate = lr,
          epoch = (case o_epoch options of None \<Rightarrow> 5 | Some x \<Rightarrow> x),
          batchSize = (case o_batchSize options of None \<Rightarrow> 1000 | Some x \<Rightarrow> x),
          initialized = False\<rparr>)"

subsection \<open>Embedding lifecycle\<close>

text \<open>
  A function that may run forever returns an option, \<open>None\<close> for a run that does not
  end; one that may throw returns a sum, \<open>Inl\<close> the error. The pauses
  (\<^verbatim>\<open>setTimeout\<close>) the loops take are not modelled, nor is \<^verbatim>\<open>dispose\<close>.

  \<^verbatim>\<open>createEmbeddingsInBatches\<close>: the loop
  \<^verbatim>\<open>for (let i = 0; i < totalSize; i += batchSize)\<close>, which collects the batches.
\<close>

partial_function (option) createEmbeddings_loop ::
  "'e engine \<Rightarrow> 'e \<Rightarrow> nat \<Rightarrow> nat \<Rightarrow> nat \<Rightarrow> nat \<Rightarrow> tensor list \<Rightarrow> ('e \<times> tensor list) option"
where
  "createEmbeddings_loop ops e batchSize' totalSize embeddingDim i batches =
     (if i < totalSize then
        (let currentBatchSize = min batchSize' (totalSize - i);
             r = randomNormal ops e currentBatchSize embeddingDim;
             batch = tensor_of currentBatchSize embeddingDim (stored ops (snd r))
         in createEmbeddings_loop ops (fst r) batchSize' totalSize embeddingDim
              (i + batchSize') (batches @ [batch]))
      else Some (e, batches))"

declare createEmbeddings_loop.simps [code]

definition createEmbeddingsInBatches ::
  "'e engine \<Rightarrow> 'e Recommendation \<Rightarrow> nat \<Rightarrow> nat \<Rightarrow> (error + 'e \<times> tensor) option" where
  "createEmbeddingsInBatches ops m totalSize embeddingDim =
     (if totalSize = 0 then Some (Inr (engine m, zeros 0 embeddingDim))
      else
        (let batchSize' = min (batchSize m) totalSize
         in case createEmbeddings_loop ops (engine m) batchSize' totalSize embeddingDim 0 [] of
              None \<Rightarrow> None
            | Some (e, batches) \<Rightarrow>
                (case concat0 batches of
                   Inl err \<Rightarrow> Some (Inl err)
                 | Inr fullMatrix \<Rightarrow> Some (Inr (e, fullMatrix)))))"

definition initializeEmbeddings ::
  "'e engine \<Rightarrow> 'e Recommendation \<Rightarrow> (error + 'e Recommendation) option" where
  "initializeEmbeddings ops m =
     (let numUsers = length (getAllUsers (storage m));
          numEntities = length (getAllEntities (storage m))
      in case createEmbeddingsInBatches ops m numUsers (embeddingSize m) of
           None \<Rightarrow> None
         | Some (Inl err) \<Rightarrow> Some (Inl err)
         | Some (Inr (e1, u)) \<Rightarrow>
             (let m1 = m\<lparr>engine := e1, userEmbeddings := Some u\<rparr>
              in case createEmbeddingsInBatches ops m1 numEntities (embeddingSize m1) of
                   None \<Rightarrow> None
                 | Some (Inl err) \<Rightarrow> Some (Inl err)
                 | Some (Inr (e2, v)) \<Rightarrow>
                     Some (Inr (m1\<lparr>engine := e2, entityEmbeddings := Some v,
                                    initialized := True\<rparr>))))"

text \<open>
  \<^verbatim>\<open>registerUsersAndEntitiesInBatches\<close>: the inner loop over one batch, then the loop
  \<^verbatim>\<open>for (let i = 0; i < data.length; i += this.batchSize)\<close>.
\<close>

definition register_batch :: "InMemoryStorage \<Rightarrow> Interaction list \<Rightarrow> InMemoryStorage" where
  "register_batch st batch =
     foldl (\<lambda>s x. snd (getOrCreateEntityIndex (snd (getOrCreateUserIndex s (user x))) (entity x)))
       st batch"

partial_function (option) register_loop ::
  "'e Recommendation \<Rightarrow> Interaction list \<Rightarrow> nat \<Rightarrow> 'e Recommendation option" where
  "register_loop m data i =
     (if i < length data then
        (let batch = slice data (int i) (int i + int (batchSize m))
         in register_loop (m\<lparr>storage := register_batch (storage m) batch\<rparr>) data
              (i + batchSize m))
      else Some m)"

declare register_loop.simps [code]

definition registerUsersAndEntitiesInBatches ::
  "'e Recommendation \<Rightarrow> Interaction list \<Rightarrow> 'e Recommendation option" where
  "registerUsersAndEntitiesInBatches m data = register_loop m data 0"

text \<open>
  \<^verbatim>\<open>resizeEmbeddingsIfNeeded\<close>: both counts are read first; then the user matrix, then
  the entity matrix, grows by the rows it lacks.
\<close>

definition resize_users ::
  "'e engine \<Rightarrow> 'e Recommendation \<Rightarrow> nat \<Rightarrow> (error + 'e Recommendation) option" where
  "resize_users ops m userCount =
     (case userEmbeddings m of
        None \<Rightarrow> Some (Inl TypeError)
      | Some oldUserEmbeddings \<Rightarrow>
          if userCount > shape0 oldUserEmbeddings then
            (let newUserCount = userCount - shape0 oldUserEmbeddings
             in case createEmbeddingsInBatches ops m newUserCount (embeddingSize m) of
                  None \<Rightarrow> None
                | Some (Inl err) \<Rightarrow> Some (Inl err)
                | Some (Inr (e, newUsers)) \<Rightarrow>
                    (case concat0 [oldUserEmbeddings, newUsers] of
                       Inl err \<Rightarrow> Some (Inl err)
                     | Inr t \<Rightarrow> Some (Inr (m\<lparr>engine := e, userEmbeddings := Some t\<rparr>))))
          else Some (Inr m))"

definition resize_entities ::
  "'e engine \<Rightarrow> 'e Recommendation \<Rightarrow> nat \<Rightarrow> (error + 'e Recommendation) option" where
  "resize_entities ops m entityCount =
     (case entityEmbeddings m of
        None \<Rightarrow> Some (Inl TypeError)
      | Some oldEntityEmbeddings \<Rightarrow>
          if entityCount > shape0 oldEntityEmbeddings then
            (let newEntityCount = entityCount - shape0 oldEntityEmbeddings
             in case createEmbeddingsInBatches ops m newEntityCount (embeddingSize m) of
                  None \<Rightarrow> None
                | Some (Inl err) \<Rightarrow> Some (Inl err)
                | Some (Inr (e, newEntities)) \<Rightarrow>
                    (case concat0 [oldEntityEmbeddings, newEntities] of
                       Inl err \<Rightarrow> Some (Inl err)
                     | Inr t \<Rightarrow> Some (Inr (m\<lparr>engine := e, entityEmbeddings := Some t\<rparr>))))
          else Some (Inr m))"

definition resizeEmbeddingsIfNeeded ::
  "'e engine \<Rightarrow> 'e Recommendation \<Rightarrow> (error + 'e Recommendation) option" where
  "resizeEmbeddingsIfNeeded ops m =
     (let userCount = length (getAllUsers (storage m));
          entityCount = length (getAllEntities (storage m))
      in case resize_users ops m userCount of
           None \<Rightarrow> None
         | Some (Inl err) \<Rightarrow> Some (Inl err)
         | Some (Inr m1) \<Rightarrow> resize_entities ops m1 entityCount)"

subsection \<open>Training\<close>

text \<open>
  The body of the loop over one batch in \<^verbatim>\<open>trainEpochInBatches\<close>: an interaction whose
  user or entity has no slot is skipped; the loss reads one row of each matrix, so the
  step throws where a row is missing; the optimizer then throws or assigns both
  variables.
\<close>

definition train_interaction ::
  "'e engine \<Rightarrow> 'e Recommendation \<Rightarrow> Interaction \<Rightarrow> error + 'e Recommendation" where
  "train_interaction ops m x =
     (case getUserIndex (storage m) (user x) of
        None \<Rightarrow> Inr m
      | Some userIdx \<Rightarrow>
     (case getEntityIndex (storage m) (entity x) of
        None \<Rightarrow> Inr m
      | Some entityIdx \<Rightarrow>
     (case userEmbeddings m of
        None \<Rightarrow> Inl TypeError
      | Some u \<Rightarrow>
     (case slice_row u userIdx (embeddingSize m) of
        Inl err \<Rightarrow> Inl err
      | Inr userVec \<Rightarrow>
     (case entityEmbeddings m of
        None \<Rightarrow> Inl TypeError
      | Some v \<Rightarrow>
     (case slice_row v entityIdx (embeddingSize m) of
        Inl err \<Rightarrow> Inl err
      | Inr entityVec \<Rightarrow>
          (let target = (case rating x of None \<Rightarrow> 1 | Some r \<Rightarrow> r)
           in case minimize ops (engine m) u v userIdx entityIdx (embeddingSize m) target of
                Inl err \<Rightarrow> Inl err
              | Inr r \<Rightarrow>
                  Inr (m\<lparr>engine := fst r,
                         userEmbeddings := Some (assign u (stored ops (fst (snd r)))),
                         entityEmbeddings := Some (assign v (stored ops (snd (snd r))))\<rparr>))))))))"

fun train_batch ::
  "'e engine \<Rightarrow> 'e Recommendation \<Rightarrow> Interaction list \<Rightarrow> error + 'e Recommendation" where
  "train_batch ops m [] = Inr m"
| "train_batch ops m (x # xs) =
     (case train_interaction ops m x of
        Inl err \<Rightarrow> Inl err
      | Inr m' \<Rightarrow> train_batch ops m' xs)"

partial_function (option) train_loop ::
  "'e engine \<Rightarrow> 'e Recommendation \<Rightarrow> Interaction list \<Rightarrow> nat \<Rightarrow> (error + 'e Recommendation) option"
where
  "train_loop ops m data i =
     (if i < length data then
        (let batch = slice data (int i) (int i + int (batchSize m))
         in case train_batch ops m batch of
              Inl err \<Rightarrow> Some (Inl err)
            | Inr m' \<Rightarrow> train_loop ops m' data (i + batchSize m'))
      else Some (Inr m))"

declare train_loop.simps [code]

definition trainEpochInBatches ::
  "'e engine \<Rightarrow> 'e Recommendation \<Rightarrow> Interaction list \<Rightarrow> (error + 'e Recommendation) option" where
  "trainEpochInBatches ops m data = train_loop ops m data 0"

text \<open>The loop \<^verbatim>\<open>for (let e = 0; e < this.epoch; e++)\<close> of \<^verbatim>\<open>fit\<close>.\<close>

partial_function (option) epoch_loop ::
  "'e engine \<Rightarrow> 'e Recommendation \<Rightarrow> Interaction list \<Rightarrow> nat \<Rightarrow> (error + 'e Recommendation) option"
where
  "epoch_loop ops m data e =
     (if e < epoch m then
        (case trainEpochInBatches ops m data of
           None \<Rightarrow> None
         | Some (Inl err) \<Rightarrow> Some (Inl err)
         | Some (Inr m') \<Rightarrow> epoch_loop ops m' data (e + 1))
      else Some (Inr m))"

declare epoch_loop.simps [code]

text \<open>
  The first two phases of \<^verbatim>\<open>fit\<close>: registration, then initialisation or growth.
\<close>

definition registration_and_sizing ::
  "'e engine \<Rightarrow> 'e Recommendation \<Rightarrow> Interaction list \<Rightarrow> (error + 'e Recommendation) option" where
  "registration_and_sizing ops m data =
     (case registerUsersAndEntitiesInBatches m data of
        None \<Rightarrow> None
      | Some m1 \<Rightarrow>
          if \<not> initialized m1 then initializeEmbeddings ops m1
          else resizeEmbeddingsIfNeeded ops m1)"

definition fit ::
  "'e engine \<Rightarrow> 'e Recommendation \<Rightarrow> Interaction list \<Rightarrow> (error + 'e Recommendation) option" where
  "fit ops m data =
     (if length data = 0 then Some (Inr m)
      else
        (case registration_and_sizing ops m data of
           None \<Rightarrow> None
         | Some (Inl err) \<Rightarrow> Some (Inl err)
         | Some (Inr m2) \<Rightarrow> epoch_loop ops m2 data 0))"

subsection \<open>Ranking\<close>

text \<open>
  \<^verbatim>\<open>Array.prototype.sort(compare)\<close> is stable: of two elements that \<open>compare\<close> takes for
  equal, the one that stood first stays first. For a comparator that orders the
  elements consistently this fixes the result, which insertion from the right
  computes: an element goes in front of the first element it does not have to follow.
\<close>

fun sort_insert :: "('a \<Rightarrow> 'a \<Rightarrow> real) \<Rightarrow> 'a \<Rightarrow> 'a list \<Rightarrow> 'a list" where
  "sort_insert compare x [] = [x]"
| "sort_insert compare x (y # ys) =
     (if compare x y \<le> 0 then x # y # ys else y # sort_insert compare x ys)"

definition array_sort :: "('a \<Rightarrow> 'a \<Rightarrow> real) \<Rightarrow> 'a list \<Rightarrow> 'a list" where
  "array_sort compare xs = foldr (sort_insert compare) xs []"

text \<open>
  \<^verbatim>\<open>rankTop\<close>. An entry \<^verbatim>\<open>{ id, score }\<close> is the pair \<open>(id, score)\<close>; \<open>entries\<close> is
  \<^verbatim>\<open>scores.map((score, idx) => ({ id: ids[idx], score }))\<close> and \<open>ranked\<close> is the sorted
  array.
\<close>

definition entries :: "real list \<Rightarrow> 'a option list \<Rightarrow> ('a option \<times> real) list" where
  "entries scores ids = map (\<lambda>(idx, score). (array_get ids idx, score)) (enumerate 0 scores)"

definition ranked :: "real list \<Rightarrow> 'a option list \<Rightarrow> ('a option \<times> real) list" where
  "ranked scores ids = array_sort (\<lambda>a b. snd b - snd a) (entries scores ids)"

definition rankTop :: "real list \<Rightarrow> 'a option list \<Rightarrow> int \<Rightarrow> 'a option list" where
  "rankTop scores ids count = map fst (slice (ranked scores ids) 0 count)"

definition getUsers :: "'e Recommendation \<Rightarrow> Id \<Rightarrow> int \<Rightarrow> error + Id option list" where
  "getUsers m ident count =
     (case getEntityIndex (storage m) ident of
        None \<Rightarrow> Inr []
      | Some entityIdx \<Rightarrow>
     (case entityEmbeddings m of
        None \<Rightarrow> Inl TypeError
      | Some v \<Rightarrow>
     (case slice_row v entityIdx (embeddingSize m) of
        Inl err \<Rightarrow> Inl err
      | Inr entityVec \<Rightarrow>
     (case userEmbeddings m of
        None \<Rightarrow> Inl TypeError
      | Some u \<Rightarrow>
     (case matMul_transpose u entityVec of
        Inl err \<Rightarrow> Inl err
      | Inr values \<Rightarrow> Inr (rankTop values (getAllUsers (storage m)) count))))))"

definition getEntities :: "'e Recommendation \<Rightarrow> Id \<Rightarrow> int \<Rightarrow> error + Id option list" where
  "getEntities m ident count =
     (case getUserIndex (storage m) ident of
        None \<Rightarrow> Inr []
      | Some userIdx \<Rightarrow>
     (case userEmbeddings m of
        None \<Rightarrow> Inl TypeError
      | Some u \<Rightarrow>
     (case slice_row u userIdx (embeddingSize m) of
        Inl err \<Rightarrow> Inl err
      | Inr userVec \<Rightarrow>
     (case entityEmbeddings m of
        None \<Rightarrow> Inl TypeError
      | Some v \<Rightarrow>
     (case matMul_transpose v userVec of
        Inl err \<Rightarrow> Inl err
      | Inr values \<Rightarrow> Inr (rankTop values (getAllEntities (storage m)) count))))))"

subsection \<open>Serialization\<close>

definition export :: "'e Recommendation \<Rightarrow> error + SerializedModel" where
  "export m =
     (if \<not> initialized m then Inl NotInitialized
      else
        (let storageData = exportData (storage m)
         in case userEmbeddings m of
              None \<Rightarrow> Inl TypeError
            | Some u \<Rightarrow>
           (case array u of
              Inl err \<Rightarrow> Inl err
            | Inr userEmbeddingsArray \<Rightarrow>
           (case entityEmbeddings m of
              None \<Rightarrow> Inl TypeError
            | Some v \<Rightarrow>
           (case array v of
              Inl err \<Rightarrow> Inl err
            | Inr entityEmbeddingsArray \<Rightarrow>
                Inr \<lparr>sm_config =
                       \<lparr>c_epoch = epoch m, c_embeddingSize = embeddingSize m,
                        c_learningRate = learningRate m, c_batchSize = batchSize m\<rparr>,
                     sm_userEmbeddings = userEmbeddingsArray,
                     sm_entityEmbeddings = entityEmbeddingsArray,
                     sm_userMap = sd_userMap storageData,
                     sm_entityMap = sd_entityMap storageData,
                     sm_reverseUserMap = sd_reverseUserMap storageData,
                     sm_reverseEntityMap = sd_reverseEntityMap storageData,
                     sm_initialized = initialized m,
                     sm_version = ''1.0.0''\<rparr>)))))"

text \<open>
  \<^verbatim>\<open>Recommendation.from(modelData, storage?)\<close>. The warning on another version is
  console output and changes nothing; the name \<open>from\<close> is taken, so the function is
  \<open>from_model\<close>.
\<close>

definition from_model ::
  "'e engine \<Rightarrow> SerializedModel \<Rightarrow> InMemoryStorage option \<Rightarrow> error + 'e Recommendation" where
  "from_model ops modelData storage' =
     (let recommendation =
            Recommendation_new ops
              \<lparr>o_epoch = Some (c_epoch (sm_config modelData)),
               o_embeddingSize = Some (c_embeddingSize (sm_config modelData)),
               o_learningRate = Some (c_learningRate (sm_config modelData)),
               o_storage =
                 Some (case storage' of None \<Rightarrow> InMemoryStorage_new | Some s \<Rightarrow> s),
               o_batchSize = Some (c_batchSize (sm_config modelData))\<rparr>;
          st = importData (storage recommendation)
                 \<lparr>sd_userMap = sm_userMap modelData,
                  sd_entityMap = sm_entityMap modelData,
                  sd_reverseUserMap = sm_reverseUserMap modelData,
                  sd_reverseEntityMap = sm_reverseEntityMap modelData\<rparr>
      in case tensor2d ops (sm_userEmbeddings modelData) of
           Inl err \<Rightarrow> Inl err
         | Inr u \<Rightarrow>
        (case tensor2d ops (sm_entityEmbeddings modelData) of
           Inl err \<Rightarrow> Inl err
         | Inr v \<Rightarrow>
             Inr (recommendation\<lparr>storage := st, userEmbeddings := Some u,
                                 entityEmbeddings := Some v,
                                 initialized := sm_initialized modelData\<rparr>)))"

section \<open>Shapes and invariants\<close>

text \<open>The batches a run of the loop returns, from a state that reflects \<open>i\<close> rows.\<close>

definition batches_ok :: "nat \<Rightarrow> nat \<Rightarrow> tensor list \<Rightarrow> bool" where
  "batches_ok d n batches \<longleftrightarrow>
     list_all (\<lambda>t. cols t = d \<and> well_shaped t) batches \<and> sum_list (map shape0 batches) = n"

text \<open>The registration calls that \<^verbatim>\<open>fit\<close> makes for a list of interactions.\<close>

fun calls_of :: "Interaction list \<Rightarrow> call list" where
  "calls_of [] = []"
| "calls_of (x # xs) = CreateUser (user x) # CreateEntity (entity x) # calls_of xs"

text \<open>\<open>grown t n t'\<close>: \<open>t'\<close> is \<open>t\<close> with the rows it lacked of \<open>n\<close> appended.\<close>

definition grown :: "tensor \<Rightarrow> nat \<Rightarrow> tensor \<Rightarrow> bool" where
  "grown t n t' \<longleftrightarrow>
     (\<exists>new. rows t' = rows t @ new \<and> length new = n - shape0 t) \<and> cols t' = cols t \<and>
     (well_shaped t \<longrightarrow> well_shaped t')"

text \<open>
  What a training step leaves as it was: the shape of a matrix, and of the model all but
  the entries of the matrices and the state of the library.
\<close>

definition same_shape :: "tensor \<Rightarrow> tensor \<Rightarrow> bool" where
  "same_shape t t' \<longleftrightarrow>
     shape0 t' = shape0 t \<and> cols t' = cols t \<and> (well_shaped t \<longrightarrow> well_shaped t')"

definition trained_from :: "'e Recommendation \<Rightarrow> 'e Recommendation \<Rightarrow> bool" where
  "trained_from m m' \<longleftrightarrow>
     storage m' = storage m \<and> embeddingSize m' = embeddingSize m \<and>
     learningRate m' = learningRate m \<and> epoch m' = epoch m \<and> batchSize m' = batchSize m \<and>
     initialized m' = initialized m \<and>
     rel_option same_shape (userEmbeddings m) (userEmbeddings m') \<and>
     rel_option same_shape (entityEmbeddings m) (entityEmbeddings m')"

text \<open>A list of entries that is a \<^verbatim>\<open>Map\<close>: no key twice.\<close>

definition Map_ok :: "('k, 'v) Map \<Rightarrow> bool" where
  "Map_ok m \<longleftrightarrow> distinct (map fst m)"

text \<open>
  What every value of the model stands for: lists of entries that are maps, and
  matrices, where assigned, that hold single-precision numbers (numbers that
  \<open>fround\<close> leaves as they are) in rows that are cut as the shape says whenever the
  data are as many as the shape says.
\<close>

definition storage_ok :: "InMemoryStorage \<Rightarrow> bool" where
  "storage_ok st \<longleftrightarrow> Map_ok (userMap st) \<and> Map_ok (entityMap st)"

definition float32 :: "'e engine \<Rightarrow> tensor \<Rightarrow> bool" where
  "float32 ops t \<longleftrightarrow> list_all (list_all (\<lambda>x. fround ops x = x)) (rows t)"

definition canonical :: "tensor \<Rightarrow> bool" where
  "canonical t \<longleftrightarrow> (length (concat (rows t)) = shape0 t * cols t \<longrightarrow> well_shaped t)"

definition faithful :: "'e engine \<Rightarrow> tensor \<Rightarrow> bool" where
  "faithful ops t \<longleftrightarrow> float32 ops t \<and> canonical t"

definition represented :: "'e engine \<Rightarrow> 'e Recommendation \<Rightarrow> bool" where
  "represented ops m \<longleftrightarrow>
     Map_ok (userMap (storage m)) \<and> Map_ok (entityMap (storage m)) \<and>
     pred_option (faithful ops) (userEmbeddings m) \<and>
     pred_option (faithful ops) (entityEmbeddings m)"

text \<open>Rounding a number that is rounded changes nothing.\<close>

definition idempotent_fround :: "'e engine \<Rightarrow> bool" where
  "idempotent_fround ops \<longleftrightarrow> (\<forall>x. fround ops (fround ops x) = fround ops x)"

text \<open>An optimizer none of whose steps throws.\<close>

definition minimize_returns :: "'e engine \<Rightarrow> bool" where
  "minimize_returns ops \<longleftrightarrow> (\<forall>e u v i j d t. \<exists>r. minimize ops e u v i j d t = Inr r)"

text \<open>
  An array of a document that holds as many numbers as the shape read off it says, or
  whose shape has no entries: the arrays that \<^verbatim>\<open>array()\<close> can read back.
\<close>

definition fits :: "real list list \<Rightarrow> bool" where
  "fits values \<longleftrightarrow>
     length values * length (hd values) = 0 \<or>
     length (concat values) = length values * length (hd values)"

text \<open>
  The state that the constructor sets up and \<^verbatim>\<open>fit\<close> maintains: a dense index, and
  once the model is initialized two matrices of the configured width with one row a
  slot, at least one row each.
\<close>

definition sound :: "'e Recommendation \<Rightarrow> bool" where
  "sound m \<longleftrightarrow>
     dense_storage (storage m) \<and>
     (initialized m \<longrightarrow>
        (\<exists>u v. userEmbeddings m = Some u \<and> entityEmbeddings m = Some v \<and>
           well_shaped u \<and> well_shaped v \<and>
           cols u = embeddingSize m \<and> cols v = embeddingSize m \<and>
           shape0 u = length (getAllUsers (storage m)) \<and>
           shape0 v = length (getAllEntities (storage m)) \<and>
           0 < shape0 u \<and> 0 < shape0 v))"

section \<open>Concrete inputs\<close>

text \<open>
  An engine, a configuration, a training set and a document on which the definitions
  are run. The state of the engine is the count of the random entries drawn and
  optimizer steps made, with the row counts of the two matrices that the optimizer
  saw at its first step. The engine numbers the random entries as it draws them; its
  optimizer adds the target to the two rows the loss reads, and throws when the
  matrices do not have the row counts of its first step, as an optimizer does whose
  accumulators have the shapes of the variables it first saw; its rounding leaves
  every number as it is. \<open>sample_model\<close> is the model that \<^verbatim>\<open>fit\<close> builds from the
  configuration and the training set, and \<open>sample_document\<close> with the flag set is the
  document \<^verbatim>\<open>export\<close> writes of it.
\<close>

type_synonym sample_state = "nat \<times> (nat \<times> nat) option"

definition sample_engine :: "sample_state engine" where
  "sample_engine =
     \<lparr>train_adam = (\<lambda>lr. (0, None)),
      randomNormal = (\<lambda>e n d. ((fst e + n * d, snd e), \<lambda>i j. real (fst e + i * d + j))),
      minimize = (\<lambda>e u v userIdx entityIdx d target.
         if snd e = None \<or> snd e = Some (shape0 u, shape0 v) then
           Inr ((fst e + 1, Some (shape0 u, shape0 v)),
                \<lambda>i j. rows u ! i ! j + (if i = userIdx then target else 0),
                \<lambda>i j. rows v ! i ! j + (if i = entityIdx then target else 0))
         else Inl EngineError),
      fround = (\<lambda>x. x)\<rparr>"

definition sample_options :: RecommendationOptions where
  "sample_options =
     \<lparr>o_epoch = Some 1, o_embeddingSize = Some 2, o_learningRate = None,
      o_storage = None, o_batchSize = Some 2\<rparr>"

definition sample_data :: "Interaction list" where
  "sample_data =
     [\<lparr>user = IdStr ''u1'', entity = IdStr ''e1'', rating = Some 5\<rparr>,
      \<lparr>user = IdStr ''u2'', entity = IdStr ''e1'', rating = None\<rparr>,
      \<lparr>user = IdStr ''u1'', entity = IdNum 7, rating = Some 2\<rparr>]"

definition sample_document :: "bool \<Rightarrow> SerializedModel" where
  "sample_document flag =
     \<lparr>sm_config = \<lparr>c_epoch = 1, c_embeddingSize = 2, c_learningRate = 1 / 20, c_batchSize = 2\<rparr>,
      sm_userEmbeddings = [[7, 8], [3, 4]],
      sm_entityEmbeddings = [[10, 11], [8, 9]],
      sm_userMap = [(IdStr ''u1'', 0), (IdStr ''u2'', 1)],
      sm_entityMap = [(IdStr ''e1'', 0), (IdNum 7, 1)],
      sm_reverseUserMap = [Some (IdStr ''u1''), Some (IdStr ''u2'')],
      sm_reverseEntityMap = [Some (IdStr ''e1''), Some (IdNum 7)],
      sm_initialized = flag,
      sm_version = ''1.0.0''\<rparr>"

definition sample_calls :: "call list" where
  "sample_calls =
     [CreateUser (IdStr ''u1''), CreateEntity (IdStr ''e1''), CreateUser (IdStr ''u2''),
      CreateUser (IdStr ''u1''), CreateEntity (IdNum 7)]"

definition sample_model :: "sample_state Recommendation" where
  "sample_model =
     \<lparr>storage =
        \<lparr>userMap = [(IdStr ''u1'', 0), (IdStr ''u2'', 1)],
         entityMap = [(IdStr ''e1'', 0), (IdNum 7, 1)],
         reverseUserMap = [Some (IdStr ''u1''), Some (IdStr ''u2'')],
         reverseEntityMap = [Some (IdStr ''e1''), Some (IdNum 7)]\<rparr>,
      userEmbeddings = Some \<lparr>rows = [[7, 8], [3, 4]], cols = 2\<rparr>,
      entityEmbeddings = Some \<lparr>rows = [[10, 11], [8, 9]], cols = 2\<rparr>,
      engine = (11, Some (2, 2)), embeddingSize = 2, learningRate = 1 / 20, epoch = 1,
      batchSize = 2, initialized = True\<rparr>"

text \<open>
  A document with more user rows than user slots, the model \<^verbatim>\<open>from\<close> builds of it,
  and that model after \<^verbatim>\<open>fit\<close> on one interaction.
\<close>

definition skewed_document :: SerializedModel where
  "skewed_document =
     \<lparr>sm_config = \<lparr>c_epoch = 1, c_embeddingSize = 2, c_learningRate = 1 / 10, c_batchSize = 2\<rparr>,
      sm_userEmbeddings = [[7, 8], [3, 4]],
      sm_entityEmbeddings = [[10, 11]],
      sm_userMap = [(IdStr ''u1'', 0)],
      sm_entityMap = [(IdStr ''e1'', 0)],
      sm_reverseUserMap = [Some (IdStr ''u1'')],
      sm_reverseEntityMap = [Some (IdStr ''e1'')],
      sm_initialized = True,
      sm_version = ''1.0.0''\<rparr>"

definition skewed_model :: "sample_state Recommendation" where
  "skewed_model =
     \<lparr>storage =
        \<lparr>userMap = [(IdStr ''u1'', 0)], entityMap = [(IdStr ''e1'', 0)],
         reverseUserMap = [Some (IdStr ''u1'')], reverseEntityMap = [Some (IdStr ''e1'')]\<rparr>,
      userEmbeddings = Some \<lparr>rows = [[7, 8], [3, 4]], cols = 2\<rparr>,
      entityEmbeddings = Some \<lparr>rows = [[10, 11]], cols = 2\<rparr>,
      engine = (0, None), embeddingSize = 2, learningRate = 1 / 10, epoch = 1,
      batchSize = 2, initialized = True\<rparr>"

definition skewed_fitted :: "sample_state Recommendation" where
  "skewed_fitted =
     skewed_model
       \<lparr>userEmbeddings := Some \<lparr>rows = [[12, 13], [3, 4]], cols = 2\<rparr>,
        entityEmbeddings := Some \<lparr>rows = [[15, 16]], cols = 2\<rparr>,
        engine := (1, Some (2, 1))\<rparr>"

text \<open>
  \<open>sample_model\<close> as \<^verbatim>\<open>from\<close> loads it from its document, with a fresh optimizer, and
  that model after \<^verbatim>\<open>fit\<close> on an interaction of a new user.
\<close>

definition loaded_model :: "sample_state Recommendation" where
  "loaded_model = sample_model\<lparr>engine := (0, None)\<rparr>"

definition loaded_fitted :: "sample_state Recommendation" where
  "loaded_fitted =
     loaded_model
       \<lparr>storage :=
          \<lparr>userMap = [(IdStr ''u1'', 0), (IdStr ''u2'', 1), (IdStr ''u3'', 2)],
           entityMap = [(IdStr ''e1'', 0), (IdNum 7, 1)],
           reverseUserMap = [Some (IdStr ''u1''), Some (IdStr ''u2''), Some (IdStr ''u3'')],
           reverseEntityMap = [Some (IdStr ''e1''), Some (IdNum 7)]\<rparr>,
        userEmbeddings := Some \<lparr>rows = [[7, 8], [3, 4], [1, 2]], cols = 2\<rparr>,
        entityEmbeddings := Some \<lparr>rows = [[11, 12], [8, 9]], cols = 2\<rparr>,
        engine := (3, Some (3, 2))\<rparr>"

text \<open>
  A configuration with embedding size zero, the model that \<^verbatim>\<open>fit\<close> builds from it and
  the training set, and the document \<^verbatim>\<open>export\<close> writes of that model.
\<close>

definition zero_options :: RecommendationOptions where
  "zero_options =
     \<lparr>o_epoch = Some 1, o_embeddingSize = Some 0, o_learningRate = None,
      o_storage = None, o_batchSize = Some 2\<rparr>"

definition zero_model :: "sample_state Recommendation" where
  "zero_model =
     \<lparr>storage =
        \<lparr>userMap = [(IdStr ''u1'', 0), (IdStr ''u2'', 1)],
         entityMap = [(IdStr ''e1'', 0), (IdNum 7, 1)],
         reverseUserMap = [Some (IdStr ''u1''), Some (IdStr ''u2'')],
         reverseEntityMap = [Some (IdStr ''e1''), Some (IdNum 7)]\<rparr>,
      userEmbeddings = Some \<lparr>rows = [[], []], cols = 0\<rparr>,
      entityEmbeddings = Some \<lparr>rows = [[], []], cols = 0\<rparr>,
      engine = (3, Some (2, 2)), embeddingSize = 0, learningRate = 1 / 20, epoch = 1,
      batchSize = 2, initialized = True\<rparr>"

definition zero_document :: SerializedModel where
  "zero_document =
     \<lparr>sm_config = \<lparr>c_epoch = 1, c_embeddingSize = 0, c_learningRate = 1 / 20, c_batchSize = 2\<rparr>,
      sm_userEmbeddings = [],
      sm_entityEmbeddings = [],
      sm_userMap = [(IdStr ''u1'', 0), (IdStr ''u2'', 1)],
      sm_entityMap = [(IdStr ''e1'', 0), (IdNum 7, 1)],
      sm_reverseUserMap = [Some (IdStr ''u1''), Some (IdStr ''u2'')],
      sm_reverseEntityMap = [Some (IdStr ''e1''), Some (IdNum 7)],
      sm_initialized = True,
      sm_version = ''1.0.0''\<rparr>"

text \<open>
  A document whose user array has rows of two lengths and three numbers for a shape
  of four, and the model \<^verbatim>\<open>from\<close> builds of it.
\<close>

definition ragged_document :: SerializedModel where
  "ragged_document =
     \<lparr>sm_config = \<lparr>c_epoch = 1, c_embeddingSize = 2, c_learningRate = 1 / 10, c_batchSize = 2\<rparr>,
      sm_userEmbeddings = [[7, 8], [3]],
      sm_entityEmbeddings = [[10, 11]],
      sm_userMap = [(IdStr ''u1'', 0), (IdStr ''u2'', 1)],
      sm_entityMap = [(IdStr ''e1'', 0)],
      sm_reverseUserMap = [Some (IdStr ''u1''), Some (IdStr ''u2'')],
      sm_reverseEntityMap = [Some (IdStr ''e1'')],
      sm_initialized = True,
      sm_version = ''1.0.0''\<rparr>"

definition ragged_model :: "sample_state Recommendation" where
  "ragged_model =
     \<lparr>storage =
        \<lparr>userMap = [(IdStr ''u1'', 0), (IdStr ''u2'', 1)], entityMap = [(IdStr ''e1'', 0)],
         reverseUserMap = [Some (IdStr ''u1''), Some (IdStr ''u2'')],
         reverseEntityMap = [Some (IdStr ''e1'')]\<rparr>,
      userEmbeddings = Some \<lparr>rows = [[7, 8], [3]], cols = 2\<rparr>,
      entityEmbeddings = Some \<lparr>rows = [[10, 11]], cols = 2\<rparr>,
      engine = (0, None), embeddingSize = 2, learningRate = 1 / 10, epoch = 1,
      batchSize = 2, initialized = True\<rparr>"

section \<open>Properties\<close>

lemmas storage_simps =
  getUserIndex_def getEntityIndex_def getOrCreateUserIndex_def getOrCreateEntityIndex_def
  getAllUsers_def getAllEntities_def Map_has_def Map_get_def Map_size_def array_set_def
  array_get_def

lemmas tensor_simps =
  shape0_def tensor_of_def zeros_def concat0_def slice_row_def dot_def matMul_transpose_def
  assign_def stored_def

subsection \<open>Tensors and nested arrays\<close>

lemma length_rechunk [simp]: "length (rechunk n c xs) = n"
  by (induction n c xs rule: rechunk.induct) simp_all

lemma concat_rechunk: "0 < n \<Longrightarrow> concat (rechunk n c xs) = xs"
  by (induction n c xs rule: rechunk.induct) simp_all

lemma rechunk_map: "rechunk n c (map f xs) = map (map f) (rechunk n c xs)"
  by (induction n c xs rule: rechunk.induct) (simp_all add: take_map drop_map)

lemma rechunk_concat:
  "list_all (\<lambda>r. length r = c) rs \<Longrightarrow> rechunk (length rs) c (concat rs) = rs"
proof (induction rs)
  case Nil
  show ?case by simp
next
  case (Cons r rs)
  show ?case
  proof (cases rs)
    case Nil
    then show ?thesis by simp
  next
    case (Cons r' rs')
    with Cons.IH Cons.prems show ?thesis by simp
  qed
qed

lemma rechunk_rows:
  "length xs = n * c \<Longrightarrow> list_all (\<lambda>r. length r = c) (rechunk n c xs)"
  by (induction n c xs rule: rechunk.induct) simp_all

lemma tensor2d_Inr:
  assumes "tensor2d ops vs = Inr t"
  shows "vs \<noteq> []" and "shape0 t = length vs" and "cols t = length (hd vs)"
    and "concat (rows t) = map (fround ops) (concat vs)"
    and "rows t = rechunk (length vs) (length (hd vs)) (map (fround ops) (concat vs))"
proof -
  from assms show ne: "vs \<noteq> []" by (auto simp: tensor2d_def)
  from assms show r: "rows t = rechunk (length vs) (length (hd vs)) (map (fround ops) (concat vs))"
    by (auto simp: tensor2d_def split: list.splits)
  from assms show "cols t = length (hd vs)" by (auto simp: tensor2d_def split: list.splits)
  from r show "shape0 t = length vs" by (simp add: shape0_def)
  from ne have "0 < length vs" by simp
  with r show "concat (rows t) = map (fround ops) (concat vs)"
    by (simp only: concat_rechunk)
qed

lemma tensor2d_rectangular:
  assumes "tensor2d ops vs = Inr t" and "list_all (\<lambda>r. length r = cols t) vs"
  shows "rows t = map (map (fround ops)) vs"
proof -
  have "rows t = map (map (fround ops)) (rechunk (length vs) (cols t) (concat vs))"
    using tensor2d_Inr(3,5) [OF assms(1)] by (simp add: rechunk_map)
  with assms(2) show ?thesis by (simp add: rechunk_concat)
qed

lemma tensor2d_canonical: "tensor2d ops vs = Inr t \<Longrightarrow> canonical t"
  using tensor2d_Inr [of ops vs t] rechunk_rows [of "map (fround ops) (concat vs)" "length vs" "length (hd vs)"]
  by (simp add: canonical_def well_shaped_def)

lemma array_returns:
  "(\<exists>a. array t = Inr a) \<longleftrightarrow>
   shape0 t * cols t = 0 \<or> length (concat (rows t)) = shape0 t * cols t"
  by (simp add: array_def)

lemma array_tensor2d: "tensor2d ops vs = Inr t \<Longrightarrow> (\<exists>a. array t = Inr a) \<longleftrightarrow> fits vs"
  using tensor2d_Inr [of ops vs t] by (simp add: array_returns fits_def)

lemma export_returns:
  "(\<exists>d. export m = Inr d) \<longleftrightarrow>
   initialized m \<and>
   (\<exists>u v a b. userEmbeddings m = Some u \<and> array u = Inr a \<and>
      entityEmbeddings m = Some v \<and> array v = Inr b)"
  by (auto simp: export_def Let_def split: option.splits sum.splits)

lemma from_model_Inr:
  assumes "from_model ops d s = Inr m"
  obtains u v where "tensor2d ops (sm_userEmbeddings d) = Inr u"
    and "tensor2d ops (sm_entityEmbeddings d) = Inr v"
    and "userEmbeddings m = Some u" and "entityEmbeddings m = Some v"
    and "initialized m = sm_initialized d"
  using assms by (auto simp: from_model_def Let_def split: sum.splits)

subsection \<open>Errors and empty results\<close>

text \<open>
  C6. \<^verbatim>\<open>fit\<close> on the empty interaction list (the default of its parameter) returns
  at once: the model it leaves is the model it got, with the flag, both matrices and
  the storage as they were.
\<close>

theorem fit_empty: "fit ops m [] = Some (Inr m)"
  by (simp add: fit_def)

text \<open>
  C5. \<^verbatim>\<open>export\<close> on a model whose flag is not set throws the error that asks for
  \<^verbatim>\<open>fit\<close> first; a model fresh from the constructor is such a model.
\<close>

theorem export_uninitialized:
  "export (Recommendation_new ops options) = Inl NotInitialized \<and>
   (\<not> initialized m \<longrightarrow> export m = Inl NotInitialized)"
  by (simp add: export_def Recommendation_new_def Let_def)

theorem export_uninitialized_witness:
  "\<not> initialized (Recommendation_new sample_engine sample_options) \<and>
   export (Recommendation_new sample_engine sample_options) = Inl NotInitialized"
proof -
  have h: "\<not> initialized (Recommendation_new sample_engine sample_options)"
    by (simp add: Recommendation_new_def Let_def)
  with export_uninitialized [of sample_engine sample_options
      "Recommendation_new sample_engine sample_options"]
  show ?thesis by simp
qed

text \<open>
  C7. A query for an identifier that has no slot returns the empty list, for every
  count: \<^verbatim>\<open>getEntities\<close> for an unknown user, \<^verbatim>\<open>getUsers\<close> for an unknown entity.
  No matrix is read, so this holds of a model whose matrices are still undefined.
\<close>

theorem unknown_id_empty:
  "(getUserIndex (storage m) ident = None \<longrightarrow> getEntities m ident count = Inr []) \<and>
   (getEntityIndex (storage m) ident = None \<longrightarrow> getUsers m ident count = Inr [])"
  by (simp add: getEntities_def getUsers_def)

theorem unknown_id_empty_witness:
  "getUserIndex (storage (Recommendation_new sample_engine sample_options)) (IdStr ''u9'') = None \<and>
   getEntities (Recommendation_new sample_engine sample_options) (IdStr ''u9'') 10 = Inr [] \<and>
   getEntityIndex (storage (Recommendation_new sample_engine sample_options)) (IdNum 3) = None \<and>
   getUsers (Recommendation_new sample_engine sample_options) (IdNum 3) 10 = Inr []"
proof -
  let ?m = "Recommendation_new sample_engine sample_options"
  have u: "getUserIndex (storage ?m) (IdStr ''u9'') = None"
    by (simp add: Recommendation_new_def Let_def sample_options_def InMemoryStorage_new_def
        getUserIndex_def Map_has_def Map_get_def)
  have e: "getEntityIndex (storage ?m) (IdNum 3) = None"
    by (simp add: Recommendation_new_def Let_def sample_options_def InMemoryStorage_new_def
        getEntityIndex_def Map_has_def Map_get_def)
  from u e unknown_id_empty [of ?m "IdStr ''u9''" 10] unknown_id_empty [of ?m "IdNum 3" 10]
  show ?thesis by simp
qed

text \<open>
  C9. The claim reads: \<^verbatim>\<open>export\<close> on the model that \<^verbatim>\<open>from\<close> returns succeeds
  whenever the flag of the document is true. It does not for a document whose array
  holds fewer or more numbers than the shape read off it says. The document
  \<open>ragged_document\<close> has the flag set and a user array of a row of two numbers and a
  row of one: \<^verbatim>\<open>from\<close> returns a model, whose user matrix has the shape \<open>[2, 2]\<close> over
  three numbers, and \<^verbatim>\<open>export\<close> on that model throws, at \<^verbatim>\<open>array()\<close>, an error that
  is not the not-initialized error.
\<close>

theorem from_copies_initialized_counterexample:
  "sm_initialized ragged_document \<and>
   from_model sample_engine ragged_document None = Inr ragged_model \<and>
   initialized ragged_model \<and>
   export ragged_model = Inl EngineError"
  by (simp add: ragged_document_def ragged_model_def from_model_def export_def tensor2d_def
      array_def shape0_def sample_engine_def Recommendation_new_def importData_def Map_new_def
      InMemoryStorage_new_def Let_def)

text \<open>
  C9, as it holds. \<^verbatim>\<open>from\<close> copies the flag of the document. When it returns a
  model, both matrices of the model are the tensors \<^verbatim>\<open>tf.tensor2d\<close> makes of the
  document's arrays, whatever the flag: as many rows as the array has, the width of
  its first row, and the numbers of the array in order, rounded to single precision;
  for an array whose rows all have that width these are the rows of the array,
  rounded. \<^verbatim>\<open>export\<close> on the model throws the not-initialized error when the
  document's flag is false. When the flag is true, \<^verbatim>\<open>export\<close> returns a document
  exactly if each array holds as many numbers as its shape says or has a shape
  without entries.
\<close>

theorem from_copies_initialized:
  assumes "from_model ops d s = Inr m"
  shows "initialized m = sm_initialized d \<and>
         (\<exists>u v. tensor2d ops (sm_userEmbeddings d) = Inr u \<and> userEmbeddings m = Some u \<and>
                shape0 u = length (sm_userEmbeddings d) \<and>
                cols u = length (hd (sm_userEmbeddings d)) \<and>
                concat (rows u) = map (fround ops) (concat (sm_userEmbeddings d)) \<and>
                (list_all (\<lambda>r. length r = cols u) (sm_userEmbeddings d) \<longrightarrow>
                   rows u = map (map (fround ops)) (sm_userEmbeddings d)) \<and>
                tensor2d ops (sm_entityEmbeddings d) = Inr v \<and> entityEmbeddings m = Some v \<and>
                shape0 v = length (sm_entityEmbeddings d) \<and>
                cols v = length (hd (sm_entityEmbeddings d)) \<and>
                concat (rows v) = map (fround ops) (concat (sm_entityEmbeddings d)) \<and>
                (list_all (\<lambda>r. length r = cols v) (sm_entityEmbeddings d) \<longrightarrow>
                   rows v = map (map (fround ops)) (sm_entityEmbeddings d))) \<and>
         (\<not> sm_initialized d \<longrightarrow> export m = Inl NotInitialized) \<and>
         (sm_initialized d \<longrightarrow>
            ((\<exists>d'. export m = Inr d') \<longleftrightarrow>
             fits (sm_userEmbeddings d) \<and> fits (sm_entityEmbeddings d)))"
proof -
  from assms obtain u v where u: "tensor2d ops (sm_userEmbeddings d) = Inr u"
    and v: "tensor2d ops (sm_entityEmbeddings d) = Inr v"
    and mu: "userEmbeddings m = Some u" and mv: "entityEmbeddings m = Some v"
    and i: "initialized m = sm_initialized d"
    by (rule from_model_Inr)
  have "\<not> sm_initialized d \<longrightarrow> export m = Inl NotInitialized"
    using i by (simp add: export_def)
  moreover have "sm_initialized d \<longrightarrow>
      ((\<exists>d'. export m = Inr d') \<longleftrightarrow> fits (sm_userEmbeddings d) \<and> fits (sm_entityEmbeddings d))"
    using i mu mv array_tensor2d [OF u] array_tensor2d [OF v] by (simp add: export_returns)
  ultimately show ?thesis
    using i u v mu mv tensor2d_Inr(2,3,4) [OF u] tensor2d_Inr(2,3,4) [OF v]
      tensor2d_rectangular [OF u] tensor2d_rectangular [OF v]
    by simp
qed

theorem from_copies_initialized_witness:
  "from_model sample_engine (sample_document False) None = Inr (loaded_model\<lparr>initialized := False\<rparr>) \<and>
   \<not> initialized (loaded_model\<lparr>initialized := False\<rparr>) \<and>
   userEmbeddings (loaded_model\<lparr>initialized := False\<rparr>) = Some \<lparr>rows = [[7, 8], [3, 4]], cols = 2\<rparr> \<and>
   export (loaded_model\<lparr>initialized := False\<rparr>) = Inl NotInitialized \<and>
   from_model sample_engine (sample_document True) None = Inr loaded_model \<and>
   initialized loaded_model \<and> fits (sm_userEmbeddings (sample_document True)) \<and>
   fits (sm_entityEmbeddings (sample_document True)) \<and>
   (\<exists>d'. export loaded_model = Inr d')"
proof -
  have f: "from_model sample_engine (sample_document False) None
             = Inr (loaded_model\<lparr>initialized := False\<rparr>)"
    by (simp add: sample_document_def loaded_model_def sample_model_def from_model_def
        tensor2d_def sample_engine_def Recommendation_new_def importData_def Map_new_def
        InMemoryStorage_new_def Let_def)
  have t: "from_model sample_engine (sample_document True) None = Inr loaded_model"
    by (simp add: sample_document_def loaded_model_def sample_model_def from_model_def
        tensor2d_def sample_engine_def Recommendation_new_def importData_def Map_new_def
        InMemoryStorage_new_def Let_def)
  have fl: "\<not> sm_initialized (sample_document False)" "sm_initialized (sample_document True)"
    "fits (sm_userEmbeddings (sample_document True))"
    "fits (sm_entityEmbeddings (sample_document True))"
    by (simp_all add: sample_document_def fits_def)
  have ue: "userEmbeddings (loaded_model\<lparr>initialized := False\<rparr>)
              = Some \<lparr>rows = [[7, 8], [3, 4]], cols = 2\<rparr>"
    by (simp add: loaded_model_def sample_model_def)
  from from_copies_initialized [OF f] from_copies_initialized [OF t] f t fl ue
  show ?thesis by simp
qed

subsection \<open>The identity index\<close>

lemma map_of_Map_set: "map_of (Map_set m k v) = (map_of m)(k \<mapsto> v)"
  by (induction m k v rule: Map_set.induct) auto

lemma Map_set_absent: "map_of m k = None \<Longrightarrow> Map_set m k v = m @ [(k, v)]"
  by (induction m k v rule: Map_set.induct) (auto split: if_splits)

lemma Map_new_distinct_aux:
  "distinct (map fst (acc @ es)) \<Longrightarrow> foldl (\<lambda>m (k, v). Map_set m k v) acc es = acc @ es"
proof (induction es arbitrary: acc)
  case Nil
  then show ?case by simp
next
  case (Cons e es)
  obtain k v where e: "e = (k, v)" by (cases e)
  from Cons.prems have "map_of acc k = None"
    by (auto simp: e map_of_eq_None_iff)
  then have "Map_set acc k v = acc @ [(k, v)]" by (rule Map_set_absent)
  with Cons.IH [of "acc @ [e]"] Cons.prems show ?case by (simp add: e)
qed

lemma Map_new_distinct: "distinct (map fst es) \<Longrightarrow> Map_new es = es"
  using Map_new_distinct_aux [of "[]" es] by (simp add: Map_new_def)

lemma dense_empty: "dense [] []"
  by (simp add: dense_def)

lemma dense_length: "dense m r \<Longrightarrow> length r = length m"
  by (simp add: dense_def)

lemma dense_nth: "dense m r \<Longrightarrow> i < length m \<Longrightarrow> m ! i = (fst (m ! i), i)"
proof -
  assume d: "dense m r" and i: "i < length m"
  then have "map snd m ! i = [0..<length m] ! i" by (simp add: dense_def)
  with i have "snd (m ! i) = i" by simp
  then show ?thesis by (simp add: prod_eq_iff)
qed

lemma dense_lookup:
  assumes "dense m r"
  shows "Map_get m k = Some i \<longleftrightarrow> i < length m \<and> fst (m ! i) = k"
proof -
  from assms have dist: "distinct (map fst m)" by (simp add: dense_def)
  have "Map_get m k = Some i \<longleftrightarrow> (k, i) \<in> set m"
    using dist by (simp add: Map_get_def)
  also have "\<dots> \<longleftrightarrow> (\<exists>j < length m. m ! j = (k, i))"
    by (auto simp: in_set_conv_nth)
  also have "\<dots> \<longleftrightarrow> i < length m \<and> fst (m ! i) = k"
    using dense_nth [OF assms] by (metis fst_conv snd_conv)
  finally show ?thesis .
qed

lemma dense_reverse:
  assumes "dense m r"
  shows "Map_get m k = Some i \<longleftrightarrow> array_get r i = Some k"
proof -
  from assms have r: "r = map (Some \<circ> fst) m" by (simp add: dense_def)
  show ?thesis unfolding dense_lookup [OF assms]
    by (auto simp: r array_get_def)
qed

lemma dense_size: "dense m r \<Longrightarrow> Map_size m = card (fst ` set m)"
proof -
  assume "dense m r"
  then have "distinct (map fst m)" by (simp add: dense_def)
  then have "card (set (map fst m)) = length (map fst m)" by (rule distinct_card)
  then show ?thesis by (simp add: Map_size_def)
qed

lemma dense_Map_set:
  assumes "dense m r" and "\<not> Map_has m k"
  shows "dense (Map_set m k (Map_size m)) (array_set r (Map_size m) k)"
proof -
  from assms(2) have none: "map_of m k = None" by (simp add: Map_has_def Map_get_def)
  then have notin: "k \<notin> fst ` set m" by (simp add: map_of_eq_None_iff)
  from assms(1) have len: "length r = length m" by (rule dense_length)
  show ?thesis
    using assms(1) notin
    by (simp add: Map_set_absent [OF none] array_set_def len Map_size_def dense_def)
qed

lemma dense_storage_new: "dense_storage InMemoryStorage_new"
  by (simp add: dense_storage_def InMemoryStorage_new_def dense_empty)

lemma dense_getOrCreateUserIndex:
  "dense_storage st \<Longrightarrow> dense_storage (snd (getOrCreateUserIndex st u))"
  by (simp add: dense_storage_def getOrCreateUserIndex_def Let_def dense_Map_set)

lemma dense_getOrCreateEntityIndex:
  "dense_storage st \<Longrightarrow> dense_storage (snd (getOrCreateEntityIndex st e))"
  by (simp add: dense_storage_def getOrCreateEntityIndex_def Let_def dense_Map_set)

lemma dense_apply_call: "dense_storage st \<Longrightarrow> dense_storage (apply_call st c)"
  by (cases c) (simp_all add: dense_getOrCreateUserIndex dense_getOrCreateEntityIndex)

lemma dense_apply_calls: "dense_storage st \<Longrightarrow> dense_storage (apply_calls st cs)"
  unfolding apply_calls_def
  by (induction cs arbitrary: st) (simp_all add: dense_apply_call)

lemma keys_Map_set: "fst ` set (Map_set m k v) = insert k (fst ` set m)"
  by (induction m k v rule: Map_set.induct) auto

lemma Map_has_keys: "Map_has m k \<longleftrightarrow> k \<in> fst ` set m"
  by (simp add: Map_has_def Map_get_def map_of_eq_None_iff)

lemma users_apply_call:
  "fst ` set (userMap (apply_call st c)) = fst ` set (userMap st) \<union> set (called_users [c])"
  by (cases c)
    (auto simp: getOrCreateUserIndex_def getOrCreateEntityIndex_def Let_def keys_Map_set
      Map_has_keys)

lemma entities_apply_call:
  "fst ` set (entityMap (apply_call st c)) =
     fst ` set (entityMap st) \<union> set (called_entities [c])"
  by (cases c)
    (auto simp: getOrCreateUserIndex_def getOrCreateEntityIndex_def Let_def keys_Map_set
      Map_has_keys)

lemma called_users_Cons: "set (called_users (c # cs)) = set (called_users [c]) \<union> set (called_users cs)"
  by (cases c) auto

lemma called_entities_Cons:
  "set (called_entities (c # cs)) = set (called_entities [c]) \<union> set (called_entities cs)"
  by (cases c) auto

lemma users_apply_calls:
  "fst ` set (userMap (apply_calls st cs)) = fst ` set (userMap st) \<union> set (called_users cs)"
  unfolding apply_calls_def
proof (induction cs arbitrary: st)
  case Nil
  show ?case by simp
next
  case (Cons c cs)
  show ?case
    using Cons.IH [of "apply_call st c"] users_apply_call [of st c] called_users_Cons [of c cs]
    by (simp add: Un_assoc del: set_map)
qed

lemma entities_apply_calls:
  "fst ` set (entityMap (apply_calls st cs)) =
     fst ` set (entityMap st) \<union> set (called_entities cs)"
  unfolding apply_calls_def
proof (induction cs arbitrary: st)
  case Nil
  show ?case by simp
next
  case (Cons c cs)
  show ?case
    using Cons.IH [of "apply_call st c"] entities_apply_call [of st c]
      called_entities_Cons [of c cs]
    by (simp add: Un_assoc del: set_map)
qed

lemma getUserIndex_get: "getUserIndex st u = Map_get (userMap st) u"
  by (simp add: getUserIndex_def Map_has_def)

lemma getEntityIndex_get: "getEntityIndex st e = Map_get (entityMap st) e"
  by (simp add: getEntityIndex_def Map_has_def)

lemma getUserIndex_apply_call:
  "getUserIndex st u = Some i \<Longrightarrow> getUserIndex (apply_call st c) u = Some i"
  by (cases c)
    (auto simp: getUserIndex_get getOrCreateUserIndex_def getOrCreateEntityIndex_def Let_def
      Map_get_def Map_has_def map_of_Map_set)

lemma getEntityIndex_apply_call:
  "getEntityIndex st e = Some i \<Longrightarrow> getEntityIndex (apply_call st c) e = Some i"
  by (cases c)
    (auto simp: getEntityIndex_get getOrCreateUserIndex_def getOrCreateEntityIndex_def Let_def
      Map_get_def Map_has_def map_of_Map_set)

lemma getUserIndex_apply_calls:
  "getUserIndex st u = Some i \<Longrightarrow> getUserIndex (apply_calls st cs) u = Some i"
  unfolding apply_calls_def
  by (induction cs arbitrary: st) (simp_all add: getUserIndex_apply_call)

lemma getEntityIndex_apply_calls:
  "getEntityIndex st e = Some i \<Longrightarrow> getEntityIndex (apply_calls st cs) e = Some i"
  unfolding apply_calls_def
  by (induction cs arbitrary: st) (simp_all add: getEntityIndex_apply_call)

lemma getOrCreateUserIndex_result:
  "fst (getOrCreateUserIndex st u) =
     (if Map_has (userMap st) u then getUserIndex st u else Some (Map_size (userMap st)))"
  by (simp add: getOrCreateUserIndex_def Let_def getUserIndex_get Map_get_def map_of_Map_set)

lemma getOrCreateEntityIndex_result:
  "fst (getOrCreateEntityIndex st e) =
     (if Map_has (entityMap st) e then getEntityIndex st e else Some (Map_size (entityMap st)))"
  by (simp add: getOrCreateEntityIndex_def Let_def getEntityIndex_get Map_get_def map_of_Map_set)

lemma dense_slots: "dense m r \<Longrightarrow> {i. \<exists>k. Map_get m k = Some i} = {0..<Map_size m}"
  by (auto simp: dense_lookup Map_size_def)

lemma dense_inj: "dense m r \<Longrightarrow> Map_get m k = Some i \<Longrightarrow> Map_get m k' = Some i \<Longrightarrow> k = k'"
  by (auto simp: dense_lookup)

text \<open>
  C8. After any sequence of \<^verbatim>\<open>getOrCreateUserIndex\<close> and \<^verbatim>\<open>getOrCreateEntityIndex\<close>
  calls on a new in-memory index, in each of the two slot spaces: the identifiers with
  a slot are the identifiers the calls named; two identifiers never share a slot; the
  slots in use are \<open>0, \<dots>, n - 1\<close> for \<open>n\<close> the number of distinct identifiers, and the
  reverse array has length \<open>n\<close> and holds at each slot its identifier; an identifier
  not seen before gets slot \<open>n\<close>, one seen before gets its slot again and the index
  stays as it is; and whatever calls follow, an identifier keeps its slot and the slot
  its identifier.
\<close>

theorem index_injective_gap_free:
  "let st = apply_calls InMemoryStorage_new cs;
       users = set (called_users cs);
       entities = set (called_entities cs)
   in (\<forall>u. getUserIndex st u \<noteq> None \<longleftrightarrow> u \<in> users) \<and>
      (\<forall>u u' i. getUserIndex st u = Some i \<longrightarrow> getUserIndex st u' = Some i \<longrightarrow> u = u') \<and>
      {i. \<exists>u. getUserIndex st u = Some i} = {0..<card users} \<and>
      length (getAllUsers st) = card users \<and>
      (\<forall>u i. getUserIndex st u = Some i \<longleftrightarrow> array_get (getAllUsers st) i = Some u) \<and>
      (\<forall>u. u \<notin> users \<longrightarrow> fst (getOrCreateUserIndex st u) = Some (card users)) \<and>
      (\<forall>u. u \<in> users \<longrightarrow>
           fst (getOrCreateUserIndex st u) = getUserIndex st u \<and>
           snd (getOrCreateUserIndex st u) = st) \<and>
      (\<forall>u i cs'. getUserIndex st u = Some i \<longrightarrow>
           getUserIndex (apply_calls st cs') u = Some i \<and>
           array_get (getAllUsers (apply_calls st cs')) i = Some u) \<and>
      (\<forall>e. getEntityIndex st e \<noteq> None \<longleftrightarrow> e \<in> entities) \<and>
      (\<forall>e e' i. getEntityIndex st e = Some i \<longrightarrow> getEntityIndex st e' = Some i \<longrightarrow> e = e') \<and>
      {i. \<exists>e. getEntityIndex st e = Some i} = {0..<card entities} \<and>
      length (getAllEntities st) = card entities \<and>
      (\<forall>e i. getEntityIndex st e = Some i \<longleftrightarrow> array_get (getAllEntities st) i = Some e) \<and>
      (\<forall>e. e \<notin> entities \<longrightarrow> fst (getOrCreateEntityIndex st e) = Some (card entities)) \<and>
      (\<forall>e. e \<in> entities \<longrightarrow>
           fst (getOrCreateEntityIndex st e) = getEntityIndex st e \<and>
           snd (getOrCreateEntityIndex st e) = st) \<and>
      (\<forall>e i cs'. getEntityIndex st e = Some i \<longrightarrow>
           getEntityIndex (apply_calls st cs') e = Some i \<and>
           array_get (getAllEntities (apply_calls st cs')) i = Some e)"
proof -
  define st where "st = apply_calls InMemoryStorage_new cs"
  define users where "users = set (called_users cs)"
  define entities where "entities = set (called_entities cs)"
  have ds: "dense_storage st"
    unfolding st_def by (rule dense_apply_calls [OF dense_storage_new])
  then have du: "dense (userMap st) (reverseUserMap st)"
    and de: "dense (entityMap st) (reverseEntityMap st)"
    by (simp_all add: dense_storage_def)
  have ku: "fst ` set (userMap st) = users"
    unfolding st_def users_def using users_apply_calls [of InMemoryStorage_new cs]
    by (simp add: InMemoryStorage_new_def)
  have ke: "fst ` set (entityMap st) = entities"
    unfolding st_def entities_def using entities_apply_calls [of InMemoryStorage_new cs]
    by (simp add: InMemoryStorage_new_def)
  have su: "Map_size (userMap st) = card users"
    using dense_size [OF du] ku by simp
  have se: "Map_size (entityMap st) = card entities"
    using dense_size [OF de] ke by simp
  have hu: "\<And>u. Map_has (userMap st) u \<longleftrightarrow> u \<in> users"
    using ku by (simp add: Map_has_keys)
  have he: "\<And>e. Map_has (entityMap st) e \<longleftrightarrow> e \<in> entities"
    using ke by (simp add: Map_has_keys)
  have u1: "\<forall>u. getUserIndex st u \<noteq> None \<longleftrightarrow> u \<in> users"
    using hu by (simp add: getUserIndex_get Map_has_def)
  have u2: "\<forall>u u' i. getUserIndex st u = Some i \<longrightarrow> getUserIndex st u' = Some i \<longrightarrow> u = u'"
    using dense_inj [OF du] by (auto simp: getUserIndex_get)
  have u3: "{i. \<exists>u. getUserIndex st u = Some i} = {0..<card users}"
    using dense_slots [OF du] su by (simp add: getUserIndex_get)
  have u4: "length (getAllUsers st) = card users"
    using dense_length [OF du] su by (simp add: getAllUsers_def Map_size_def)
  have u5: "\<forall>u i. getUserIndex st u = Some i \<longleftrightarrow> array_get (getAllUsers st) i = Some u"
    using dense_reverse [OF du] by (simp add: getUserIndex_get getAllUsers_def)
  have u6: "\<forall>u. u \<notin> users \<longrightarrow> fst (getOrCreateUserIndex st u) = Some (card users)"
    using hu su by (simp add: getOrCreateUserIndex_result)
  have u7: "\<forall>u. u \<in> users \<longrightarrow>
      fst (getOrCreateUserIndex st u) = getUserIndex st u \<and> snd (getOrCreateUserIndex st u) = st"
    using hu by (simp add: getOrCreateUserIndex_result) (simp add: getOrCreateUserIndex_def)
  have u8: "\<forall>u i cs'. getUserIndex st u = Some i \<longrightarrow>
      getUserIndex (apply_calls st cs') u = Some i \<and>
      array_get (getAllUsers (apply_calls st cs')) i = Some u"
  proof (intro allI impI)
    fix u i cs'
    assume a: "getUserIndex st u = Some i"
    then have g: "getUserIndex (apply_calls st cs') u = Some i"
      by (rule getUserIndex_apply_calls)
    from dense_apply_calls [OF ds, of cs']
    have "dense (userMap (apply_calls st cs')) (reverseUserMap (apply_calls st cs'))"
      by (simp add: dense_storage_def)
    from dense_reverse [OF this] g
    show "getUserIndex (apply_calls st cs') u = Some i \<and>
        array_get (getAllUsers (apply_calls st cs')) i = Some u"
      by (simp add: getUserIndex_get getAllUsers_def)
  qed
  have e1: "\<forall>e. getEntityIndex st e \<noteq> None \<longleftrightarrow> e \<in> entities"
    using he by (simp add: getEntityIndex_get Map_has_def)
  have e2: "\<forall>e e' i. getEntityIndex st e = Some i \<longrightarrow> getEntityIndex st e' = Some i \<longrightarrow> e = e'"
    using dense_inj [OF de] by (auto simp: getEntityIndex_get)
  have e3: "{i. \<exists>e. getEntityIndex st e = Some i} = {0..<card entities}"
    using dense_slots [OF de] se by (simp add: getEntityIndex_get)
  have e4: "length (getAllEntities st) = card entities"
    using dense_length [OF de] se by (simp add: getAllEntities_def Map_size_def)
  have e5: "\<forall>e i. getEntityIndex st e = Some i \<longleftrightarrow> array_get (getAllEntities st) i = Some e"
    using dense_reverse [OF de] by (simp add: getEntityIndex_get getAllEntities_def)
  have e6: "\<forall>e. e \<notin> entities \<longrightarrow> fst (getOrCreateEntityIndex st e) = Some (card entities)"
    using he se by (simp add: getOrCreateEntityIndex_result)
  have e7: "\<forall>e. e \<in> entities \<longrightarrow>
      fst (getOrCreateEntityIndex st e) = getEntityIndex st e \<and>
      snd (getOrCreateEntityIndex st e) = st"
    using he by (simp add: getOrCreateEntityIndex_result) (simp add: getOrCreateEntityIndex_def)
  have e8: "\<forall>e i cs'. getEntityIndex st e = Some i \<longrightarrow>
      getEntityIndex (apply_calls st cs') e = Some i \<and>
      array_get (getAllEntities (apply_calls st cs')) i = Some e"
  proof (intro allI impI)
    fix e i cs'
    assume a: "getEntityIndex st e = Some i"
    then have g: "getEntityIndex (apply_calls st cs') e = Some i"
      by (rule getEntityIndex_apply_calls)
    from dense_apply_calls [OF ds, of cs']
    have "dense (entityMap (apply_calls st cs')) (reverseEntityMap (apply_calls st cs'))"
      by (simp add: dense_storage_def)
    from dense_reverse [OF this] g
    show "getEntityIndex (apply_calls st cs') e = Some i \<and>
        array_get (getAllEntities (apply_calls st cs')) i = Some e"
      by (simp add: getEntityIndex_get getAllEntities_def)
  qed
  from u1 u2 u3 u4 u5 u6 u7 u8 e1 e2 e3 e4 e5 e6 e7 e8
  show ?thesis
    unfolding Let_def st_def [symmetric] users_def [symmetric] entities_def [symmetric]
    by blast
qed

lemma sample_calls_storage:
  "apply_calls InMemoryStorage_new sample_calls =
     \<lparr>userMap = [(IdStr ''u1'', 0), (IdStr ''u2'', 1)],
      entityMap = [(IdStr ''e1'', 0), (IdNum 7, 1)],
      reverseUserMap = [Some (IdStr ''u1''), Some (IdStr ''u2'')],
      reverseEntityMap = [Some (IdStr ''e1''), Some (IdNum 7)]\<rparr>"
  by (simp add: apply_calls_def sample_calls_def InMemoryStorage_new_def
      getOrCreateUserIndex_def getOrCreateEntityIndex_def Let_def Map_has_def Map_get_def
      Map_size_def array_set_def)

theorem index_injective_gap_free_witness:
  "getUserIndex (apply_calls InMemoryStorage_new sample_calls) (IdStr ''u1'') = Some 0 \<and>
   getUserIndex (apply_calls InMemoryStorage_new sample_calls) (IdStr ''u2'') = Some 1 \<and>
   IdStr ''u3'' \<notin> set (called_users sample_calls) \<and>
   fst (getOrCreateUserIndex (apply_calls InMemoryStorage_new sample_calls) (IdStr ''u3'')) = Some 2 \<and>
   getUserIndex (apply_calls (apply_calls InMemoryStorage_new sample_calls)
       [CreateUser (IdStr ''u3''), CreateEntity (IdStr ''u2'')]) (IdStr ''u2'') = Some 1 \<and>
   array_get (getAllUsers (apply_calls (apply_calls InMemoryStorage_new sample_calls)
       [CreateUser (IdStr ''u3''), CreateEntity (IdStr ''u2'')])) 1 = Some (IdStr ''u2'') \<and>
   getEntityIndex (apply_calls InMemoryStorage_new sample_calls) (IdNum 7) = Some 1 \<and>
   IdNum 7 \<in> set (called_entities sample_calls) \<and>
   fst (getOrCreateEntityIndex (apply_calls InMemoryStorage_new sample_calls) (IdNum 7)) = Some 1 \<and>
   snd (getOrCreateEntityIndex (apply_calls InMemoryStorage_new sample_calls) (IdNum 7)) =
     apply_calls InMemoryStorage_new sample_calls \<and>
   length (getAllEntities (apply_calls InMemoryStorage_new sample_calls)) = 2"
proof -
  let ?st = "apply_calls InMemoryStorage_new sample_calls"
  note th = index_injective_gap_free [of sample_calls, unfolded Let_def]
  have users: "set (called_users sample_calls) = {IdStr ''u1'', IdStr ''u2''}"
    and entities: "set (called_entities sample_calls) = {IdStr ''e1'', IdNum 7}"
    by (auto simp: sample_calls_def)
  have cu: "card (set (called_users sample_calls)) = 2"
    and ce: "card (set (called_entities sample_calls)) = 2"
    by (simp_all add: users entities)
  have a: "getUserIndex ?st (IdStr ''u1'') = Some 0"
    and b: "getUserIndex ?st (IdStr ''u2'') = Some 1"
    and c: "getEntityIndex ?st (IdNum 7) = Some 1"
    by (simp_all add: sample_calls_storage getUserIndex_def getEntityIndex_def Map_has_def
        Map_get_def)
  have d: "IdStr ''u3'' \<notin> set (called_users sample_calls)"
    and e: "IdNum 7 \<in> set (called_entities sample_calls)"
    by (simp_all add: users entities)
  from th d cu have f: "fst (getOrCreateUserIndex ?st (IdStr ''u3'')) = Some 2"
    by simp
  from th b have g:
    "getUserIndex (apply_calls ?st [CreateUser (IdStr ''u3''), CreateEntity (IdStr ''u2'')])
        (IdStr ''u2'') = Some 1 \<and>
     array_get (getAllUsers (apply_calls ?st
        [CreateUser (IdStr ''u3''), CreateEntity (IdStr ''u2'')])) 1 = Some (IdStr ''u2'')"
    by blast
  from th e c have h:
    "fst (getOrCreateEntityIndex ?st (IdNum 7)) = Some 1 \<and>
     snd (getOrCreateEntityIndex ?st (IdNum 7)) = ?st"
    by simp
  from th ce have i: "length (getAllEntities ?st) = 2" by simp
  from a b c d e f g h i show ?thesis by blast
qed

subsection \<open>Ranking\<close>

lemma sort_insert_insort_key:
  "sort_insert (\<lambda>a b. snd b - snd a) x ys = insort_key (\<lambda>e. - snd e) x ys"
  by (induction ys) auto

lemma array_sort_sort_key:
  "array_sort (\<lambda>a b. snd b - snd a) xs = sort_key (\<lambda>e. - snd e) xs"
  unfolding array_sort_def sort_key_def
  by (induction xs) (simp_all add: sort_insert_insort_key)

lemma ranked_sort_key: "ranked scores ids = sort_key (\<lambda>e. - snd e) (entries scores ids)"
  by (simp add: ranked_def array_sort_sort_key)

lemma length_entries: "length (entries scores ids) = length scores"
  by (simp add: entries_def)

lemma length_ranked: "length (ranked scores ids) = length scores"
  by (simp add: ranked_sort_key length_entries)




lemma slice_from_0:
  "slice xs 0 c = take (nat (if 0 \<le> c then min c (int (length xs)) else max (int (length xs) + c) 0)) xs"
  by (simp add: slice_def slice_bound_def Let_def)

lemma length_slice_from_0:
  "int (length (slice xs 0 c)) =
     (if 0 \<le> c then min c (int (length xs)) else max (int (length xs) + c) 0)"
  by (auto simp: slice_from_0)

lemma length_rankTop:
  "int (length (rankTop scores ids c)) =
     (if 0 \<le> c then min c (int (length scores)) else max (int (length scores) + c) 0)"
  by (simp add: rankTop_def length_slice_from_0 length_ranked)









lemma sample_model_known:
  "getUserIndex (storage sample_model) (IdStr ''u1'') = Some 0"
  "getEntityIndex (storage sample_model) (IdNum 7) = Some 1"
  by (simp_all add: sample_model_def storage_simps)




lemma length_matMul_transpose:
  "matMul_transpose a v = Inr values \<Longrightarrow> length values = shape0 a"
  by (auto simp: matMul_transpose_def shape0_def split: list.splits if_splits)

lemma matMul_transpose_slice_row:
  "slice_row u i d = Inr w \<Longrightarrow> cols a = d \<Longrightarrow> \<exists>values. matMul_transpose a w = Inr values"
  by (auto simp: slice_row_def matMul_transpose_def split: if_splits)

lemma getEntities_length:
  assumes "getUserIndex (storage m) ident = Some idx" and "getEntities m ident c = Inr r"
  shows "\<exists>v. entityEmbeddings m = Some v \<and>
           int (length r) =
             (if 0 \<le> c then min c (int (shape0 v)) else max (int (shape0 v) + c) 0)"
  using assms
  by (auto simp: getEntities_def length_rankTop length_matMul_transpose
      split: option.splits sum.splits simp del: of_nat_min)

lemma getUsers_length:
  assumes "getEntityIndex (storage m) ident = Some idx" and "getUsers m ident c = Inr r"
  shows "\<exists>u. userEmbeddings m = Some u \<and>
           int (length r) =
             (if 0 \<le> c then min c (int (shape0 u)) else max (int (shape0 u) + c) 0)"
  using assms
  by (auto simp: getUsers_def length_rankTop length_matMul_transpose
      split: option.splits sum.splits)

lemma getEntities_returns:
  assumes "getUserIndex (storage m) ident = Some idx"
    and "userEmbeddings m = Some u" and "entityEmbeddings m = Some v"
    and "idx < shape0 u" and "embeddingSize m \<le> cols u" and "cols v = embeddingSize m"
  shows "\<exists>r. getEntities m ident c = Inr r"
proof -
  from assms(4,5) obtain w where w: "slice_row u idx (embeddingSize m) = Inr w"
    by (auto simp: slice_row_def)
  from matMul_transpose_slice_row [OF w assms(6)]
  obtain scores where "matMul_transpose v w = Inr scores" ..
  with assms(1-3) w show ?thesis by (simp add: getEntities_def)
qed

lemma getUsers_returns:
  assumes "getEntityIndex (storage m) ident = Some idx"
    and "userEmbeddings m = Some u" and "entityEmbeddings m = Some v"
    and "idx < shape0 v" and "embeddingSize m \<le> cols v" and "cols u = embeddingSize m"
  shows "\<exists>r. getUsers m ident c = Inr r"
proof -
  from assms(4,5) obtain w where w: "slice_row v idx (embeddingSize m) = Inr w"
    by (auto simp: slice_row_def)
  from matMul_transpose_slice_row [OF w assms(6)]
  obtain scores where "matMul_transpose u w = Inr scores" ..
  with assms(1-3) w show ?thesis by (simp add: getUsers_def)
qed

text \<open>
  C10. A query for a known identifier that returns a list returns one of length
  \<open>min c n\<close> for a count \<open>c \<ge> 0\<close> and of length \<open>max (n + c) 0\<close> for \<open>c < 0\<close>, where \<open>n\<close>
  is the number of rows of the matrix that is ranked: a negative count drops the
  last \<open>|c|\<close> of the ranking, as \<^verbatim>\<open>Array.prototype.slice\<close> does. The query does return
  when its own matrix has the row of the slot and both matrices have the configured
  width.
\<close>

theorem query_result_length:
  "(getUserIndex (storage m) ident = Some idx \<and> getEntities m ident c = Inr r \<longrightarrow>
      (\<exists>v. entityEmbeddings m = Some v \<and>
           int (length r) =
             (if 0 \<le> c then min c (int (shape0 v)) else max (int (shape0 v) + c) 0))) \<and>
   (getEntityIndex (storage m) ident = Some idx \<and> getUsers m ident c = Inr r \<longrightarrow>
      (\<exists>u. userEmbeddings m = Some u \<and>
           int (length r) =
             (if 0 \<le> c then min c (int (shape0 u)) else max (int (shape0 u) + c) 0))) \<and>
   (getUserIndex (storage m) ident = Some idx \<and>
    userEmbeddings m = Some u' \<and> entityEmbeddings m = Some v' \<and>
    idx < shape0 u' \<and> embeddingSize m \<le> cols u' \<and> cols v' = embeddingSize m \<longrightarrow>
      (\<exists>r. getEntities m ident c = Inr r)) \<and>
   (getEntityIndex (storage m) ident = Some idx \<and>
    userEmbeddings m = Some u' \<and> entityEmbeddings m = Some v' \<and>
    idx < shape0 v' \<and> embeddingSize m \<le> cols v' \<and> cols u' = embeddingSize m \<longrightarrow>
      (\<exists>r. getUsers m ident c = Inr r))"
  using getEntities_length [of m ident idx c r] getUsers_length [of m ident idx c r]
    getEntities_returns [of m ident idx u' v' c] getUsers_returns [of m ident idx u' v' c]
  by blast

lemma fit_sample:
  "fit sample_engine (Recommendation_new sample_engine sample_options) sample_data =
     Some (Inr sample_model)"
  by (simp add: fit_def registration_and_sizing_def registerUsersAndEntitiesInBatches_def
      register_loop.simps register_batch_def initializeEmbeddings_def
      createEmbeddingsInBatches_def createEmbeddings_loop.simps epoch_loop.simps
      trainEpochInBatches_def train_loop.simps train_interaction_def
      Recommendation_new_def sample_options_def sample_data_def sample_engine_def
      sample_model_def InMemoryStorage_new_def slice_def slice_bound_def Let_def
      storage_simps tensor_simps upt_rec)

lemma getEntities_sample:
  "getEntities sample_model (IdStr ''u1'') (-1) = Inr [Some (IdStr ''e1'')]"
  by (simp add: getEntities_def sample_model_def rankTop_def ranked_def entries_def
      array_sort_def slice_def slice_bound_def Let_def storage_simps tensor_simps
      enumerate_eq_zip upt_rec)

theorem query_result_length_witness:
  "getUserIndex (storage sample_model) (IdStr ''u1'') = Some 0 \<and>
   getEntityIndex (storage sample_model) (IdNum 7) = Some 1 \<and>
   getEntities sample_model (IdStr ''u1'') (-1) = Inr [Some (IdStr ''e1'')] \<and>
   (\<exists>r. getEntities sample_model (IdStr ''u1'') 5 = Inr r \<and> length r = 2) \<and>
   (\<exists>r. getEntities sample_model (IdStr ''u1'') 0 = Inr r \<and> length r = 0) \<and>
   (\<exists>r. getUsers sample_model (IdNum 7) (-1) = Inr r \<and> length r = 1) \<and>
   (\<exists>r. getUsers sample_model (IdNum 7) (-5) = Inr r \<and> length r = 0)"
proof -
  let ?u = "\<lparr>rows = [[7, 8], [3, 4]], cols = 2\<rparr>"
  let ?v = "\<lparr>rows = [[10, 11], [8, 9]], cols = 2\<rparr>"
  have u: "userEmbeddings sample_model = Some ?u" and v: "entityEmbeddings sample_model = Some ?v"
    and d: "embeddingSize sample_model = 2"
    by (simp_all add: sample_model_def)
  have s: "shape0 ?u = 2" "shape0 ?v = 2" "cols ?u = 2" "cols ?v = 2"
    by (simp_all add: shape0_def)
  note k = sample_model_known
  have a: "\<exists>r. getEntities sample_model (IdStr ''u1'') 5 = Inr r \<and> length r = 2"
  proof -
    from query_result_length [of sample_model "IdStr ''u1''" 0 5 _ ?u ?v] k u v d s
    obtain r where r: "getEntities sample_model (IdStr ''u1'') 5 = Inr r" by auto
    with query_result_length [of sample_model "IdStr ''u1''" 0 5 r] k v s
    have "length r = 2" by simp
    with r show ?thesis by blast
  qed
  have b: "\<exists>r. getEntities sample_model (IdStr ''u1'') 0 = Inr r \<and> length r = 0"
  proof -
    from query_result_length [of sample_model "IdStr ''u1''" 0 0 _ ?u ?v] k u v d s
    obtain r where r: "getEntities sample_model (IdStr ''u1'') 0 = Inr r" by auto
    with query_result_length [of sample_model "IdStr ''u1''" 0 0 r] k v s
    have "length r = 0" by simp
    with r show ?thesis by blast
  qed
  have c: "\<exists>r. getUsers sample_model (IdNum 7) (-1) = Inr r \<and> length r = 1"
  proof -
    from query_result_length [of sample_model "IdNum 7" 1 "-1" _ ?u ?v] k u v d s
    obtain r where r: "getUsers sample_model (IdNum 7) (-1) = Inr r" by auto
    with query_result_length [of sample_model "IdNum 7" 1 "-1" r] k u s
    have "length r = 1" by simp
    with r show ?thesis by blast
  qed
  have e: "\<exists>r. getUsers sample_model (IdNum 7) (-5) = Inr r \<and> length r = 0"
  proof -
    from query_result_length [of sample_model "IdNum 7" 1 "-5" _ ?u ?v] k u v d s
    obtain r where r: "getUsers sample_model (IdNum 7) (-5) = Inr r" by auto
    with query_result_length [of sample_model "IdNum 7" 1 "-5" r] k u s
    have "length r = 0" by simp
    with r show ?thesis by blast
  qed
  from k getEntities_sample a b c e show ?thesis by blast
qed

subsection \<open>Sizing and training\<close>

lemma tensor_of_shape [simp]:
  "shape0 (tensor_of n d f) = n" "cols (tensor_of n d f) = d" "well_shaped (tensor_of n d f)"
  by (simp_all add: shape0_def tensor_of_def well_shaped_def list_all_iff)

lemma assign_shape [simp]:
  "shape0 (assign t f) = shape0 t" "cols (assign t f) = cols t" "well_shaped (assign t f)"
  by (simp_all add: assign_def)

lemma zeros_shape [simp]:
  "shape0 (zeros n d) = n" "cols (zeros n d) = d" "well_shaped (zeros n d)"
  by (simp_all add: zeros_def)

lemma concat0_Inr:
  assumes "concat0 ts = Inr t"
  shows "ts \<noteq> [] \<and> rows t = concat (map rows ts) \<and> list_all (\<lambda>u. cols u = cols t) ts"
  using assms by (auto simp: concat0_def split: list.splits if_splits)

lemma concat0_well_shaped:
  assumes "concat0 ts = Inr t" and "list_all well_shaped ts"
  shows "well_shaped t"
proof -
  from concat0_Inr [OF assms(1)]
  have r: "rows t = concat (map rows ts)" and c: "list_all (\<lambda>u. cols u = cols t) ts" by simp_all
  from c assms(2) have "\<forall>u \<in> set ts. \<forall>x \<in> set (rows u). length x = cols t"
    by (auto simp: list_all_iff well_shaped_def)
  then show ?thesis by (auto simp: well_shaped_def r list_all_iff)
qed

lemma shape0_concat0:
  "concat0 ts = Inr t \<Longrightarrow> shape0 t = sum_list (map shape0 ts)"
  by (drule concat0_Inr) (simp add: shape0_def [abs_def] length_concat comp_def)

lemma createEmbeddings_loop_batches_aux:
  "createEmbeddings_loop ops e b totalSize d i batches = Some r \<Longrightarrow>
   batches_ok d (min i totalSize) batches \<longrightarrow> batches_ok d totalSize (snd r)"
proof (induction rule: createEmbeddings_loop.raw_induct [rotated 1, consumes 1])
  case (1 loop ops e b totalSize d i batches r)
  show ?case
  proof (cases "i < totalSize")
    case True
    let ?cur = "min b (totalSize - i)"
    let ?rn = "randomNormal ops e ?cur d"
    let ?batches = "batches @ [tensor_of ?cur d (stored ops (snd ?rn))]"
    from 1(2) True have run: "loop ops (fst ?rn) b totalSize d (i + b) ?batches = Some r"
      by (simp add: Let_def)
    have "batches_ok d (min i totalSize) batches \<Longrightarrow>
          batches_ok d (min (i + b) totalSize) ?batches"
      using True by (auto simp: batches_ok_def)
    with 1(1) [OF run] show ?thesis by blast
  next
    case False
    with 1(2) show ?thesis by (auto simp: batches_ok_def)
  qed
qed

lemma createEmbeddings_loop_batches:
  assumes "createEmbeddings_loop ops e b totalSize d i batches = Some (e', batches')"
    and "batches_ok d (min i totalSize) batches"
  shows "batches_ok d totalSize batches'"
  using createEmbeddings_loop_batches_aux [OF assms(1)] assms(2) by simp

lemma createEmbeddingsInBatches_shape:
  assumes "createEmbeddingsInBatches ops m totalSize d = Some (Inr (e, t))"
  shows "shape0 t = totalSize \<and> cols t = d \<and> well_shaped t"
proof (cases "totalSize = 0")
  case True
  with assms show ?thesis by (auto simp: createEmbeddingsInBatches_def)
next
  case False
  with assms obtain batches where
    loop: "createEmbeddings_loop ops (engine m) (min (batchSize m) totalSize) totalSize d 0 [] =
             Some (e, batches)"
    and cat: "concat0 batches = Inr t"
    by (auto simp: createEmbeddingsInBatches_def Let_def split: option.splits sum.splits)
  have "batches_ok d (min 0 totalSize) []" by (simp add: batches_ok_def)
  from createEmbeddings_loop_batches [OF loop this]
  have ok: "batches_ok d totalSize batches" .
  from concat0_Inr [OF cat] have ne: "batches \<noteq> []"
    and cs: "list_all (\<lambda>u. cols u = cols t) batches" by simp_all
  from ne obtain b bs where "batches = b # bs" by (cases batches) auto
  with ok cs have "cols t = d" by (auto simp: batches_ok_def)
  moreover from ok have "list_all well_shaped batches"
    by (auto simp: batches_ok_def list_all_iff)
  from concat0_well_shaped [OF cat this] have "well_shaped t" .
  moreover from shape0_concat0 [OF cat] ok have "shape0 t = totalSize"
    by (simp add: batches_ok_def)
  ultimately show ?thesis by simp
qed

subsubsection \<open>Registration\<close>

lemma slice_take_drop:
  assumes "i \<le> length xs"
  shows "slice xs (int i) (int i + int b) = take b (drop i xs)"
proof -
  have k: "slice_bound (length xs) (int i) = i"
    using assms by (simp add: slice_bound_def)
  have "int i + int b = int (i + b)" by simp
  then have f: "slice_bound (length xs) (int i + int b) = min (i + b) (length xs)"
    unfolding slice_bound_def by (simp only: of_nat_min [symmetric] nat_int) simp
  have "take (min (i + b) (length xs) - i) (drop i xs) = take b (drop i xs)"
    by (cases "i + b \<le> length xs") (simp_all add: min_def)
  then show ?thesis by (simp add: slice_def Let_def k f)
qed

lemma register_batch_append:
  "register_batch st (xs @ ys) = register_batch (register_batch st xs) ys"
  by (simp add: register_batch_def)

lemma register_loop_result:
  "register_loop m data i = Some m' \<Longrightarrow>
   m' = m\<lparr>storage := register_batch (storage m) (drop i data)\<rparr>"
proof (induction rule: register_loop.raw_induct [rotated 1, consumes 1])
  case (1 loop m data i m')
  show ?case
  proof (cases "i < length data")
    case True
    let ?batch = "take (batchSize m) (drop i data)"
    let ?m1 = "m\<lparr>storage := register_batch (storage m) ?batch\<rparr>"
    from True have sl: "slice data (int i) (int i + int (batchSize m)) = ?batch"
      by (simp add: slice_take_drop)
    from 1(2) True have "loop ?m1 data (i + batchSize m) = Some m'"
      by (simp add: Let_def sl)
    from 1(1) [OF this]
    have "m' = ?m1\<lparr>storage := register_batch (storage ?m1) (drop (i + batchSize m) data)\<rparr>" .
    moreover have "?batch @ drop (i + batchSize m) data = drop i data"
      by (metis add.commute append_take_drop_id drop_drop)
    ultimately show ?thesis
      by (simp add: register_batch_append [symmetric])
  next
    case False
    with 1(2) show ?thesis by (simp add: register_batch_def)
  qed
qed

lemma registerUsersAndEntitiesInBatches_result:
  "registerUsersAndEntitiesInBatches m data = Some m' \<Longrightarrow>
   m' = m\<lparr>storage := register_batch (storage m) data\<rparr>"
  using register_loop_result [of m data 0 m']
  by (simp add: registerUsersAndEntitiesInBatches_def)

lemma register_batch_calls: "register_batch st data = apply_calls st (calls_of data)"
  unfolding register_batch_def apply_calls_def
  by (induction data arbitrary: st) simp_all

lemma length_array_set: "length xs \<le> length (array_set xs i v)"
  by (simp add: array_set_def)

lemma reverse_apply_call:
  "length (reverseUserMap st) \<le> length (reverseUserMap (apply_call st c)) \<and>
   length (reverseEntityMap st) \<le> length (reverseEntityMap (apply_call st c))"
  by (cases c)
    (simp_all add: getOrCreateUserIndex_def getOrCreateEntityIndex_def Let_def length_array_set)

lemma reverse_apply_calls:
  "length (reverseUserMap st) \<le> length (reverseUserMap (apply_calls st cs)) \<and>
   length (reverseEntityMap st) \<le> length (reverseEntityMap (apply_calls st cs))"
  unfolding apply_calls_def
proof (induction cs arbitrary: st)
  case Nil
  show ?case by simp
next
  case (Cons c cs)
  from Cons.IH [of "apply_call st c"] reverse_apply_call [of st c]
  show ?case by (simp del: apply_call.simps)
qed

subsubsection \<open>Sizing\<close>

lemma initializeEmbeddings_result:
  assumes "initializeEmbeddings ops m = Some (Inr m')"
  shows "\<exists>u v. m' = m\<lparr>engine := engine m', userEmbeddings := Some u,
                       entityEmbeddings := Some v, initialized := True\<rparr> \<and>
           shape0 u = length (getAllUsers (storage m)) \<and> cols u = embeddingSize m \<and>
           well_shaped u \<and>
           shape0 v = length (getAllEntities (storage m)) \<and> cols v = embeddingSize m \<and>
           well_shaped v"
proof -
  let ?nu = "length (getAllUsers (storage m))"
  let ?ne = "length (getAllEntities (storage m))"
  from assms obtain e1 u where
    c1: "createEmbeddingsInBatches ops m ?nu (embeddingSize m) = Some (Inr (e1, u))"
    by (auto simp: initializeEmbeddings_def Let_def split: option.splits sum.splits)
  let ?m1 = "m\<lparr>engine := e1, userEmbeddings := Some u\<rparr>"
  from assms c1 obtain e2 v where
    c2: "createEmbeddingsInBatches ops ?m1 ?ne (embeddingSize m) = Some (Inr (e2, v))"
    and m': "m' = ?m1\<lparr>engine := e2, entityEmbeddings := Some v, initialized := True\<rparr>"
    by (auto simp: initializeEmbeddings_def Let_def split: option.splits sum.splits)
  from m' have "m' = m\<lparr>engine := engine m', userEmbeddings := Some u,
      entityEmbeddings := Some v, initialized := True\<rparr>"
    by simp
  with createEmbeddingsInBatches_shape [OF c1] createEmbeddingsInBatches_shape [OF c2]
  show ?thesis by blast
qed

lemma grown_refl: "n \<le> shape0 t \<Longrightarrow> grown t n t"
  by (simp add: grown_def)

lemma grown_concat0:
  assumes "concat0 [t, new] = Inr t'" and "shape0 new = n - shape0 t" and "well_shaped new"
  shows "grown t n t'"
proof -
  from concat0_Inr [OF assms(1)]
  have r: "rows t' = rows t @ rows new" and c: "cols t = cols t'" by simp_all
  have "well_shaped t \<Longrightarrow> well_shaped t'"
    using concat0_well_shaped [OF assms(1)] assms(3) by simp
  with r c assms(2) show ?thesis by (auto simp: grown_def shape0_def)
qed

lemma resize_users_result:
  assumes "resize_users ops m n = Some (Inr m')"
  shows "\<exists>u u'. userEmbeddings m = Some u \<and> grown u n u' \<and>
           m' = m\<lparr>engine := engine m', userEmbeddings := Some u'\<rparr>"
proof -
  from assms obtain u where u: "userEmbeddings m = Some u"
    by (auto simp: resize_users_def split: option.splits)
  show ?thesis
  proof (cases "n > shape0 u")
    case True
    with assms u obtain e new t where
      c: "createEmbeddingsInBatches ops m (n - shape0 u) (embeddingSize m) = Some (Inr (e, new))"
      and cat: "concat0 [u, new] = Inr t"
      and m': "m' = m\<lparr>engine := e, userEmbeddings := Some t\<rparr>"
      by (auto simp: resize_users_def Let_def split: option.splits sum.splits)
    from createEmbeddingsInBatches_shape [OF c] have "shape0 new = n - shape0 u"
      and "well_shaped new" by simp_all
    from grown_concat0 [OF cat this] m' u show ?thesis by auto
  next
    case False
    with assms u have "m' = m" by (simp add: resize_users_def)
    with False u grown_refl [of n u] show ?thesis by auto
  qed
qed

lemma resize_entities_result:
  assumes "resize_entities ops m n = Some (Inr m')"
  shows "\<exists>v v'. entityEmbeddings m = Some v \<and> grown v n v' \<and>
           m' = m\<lparr>engine := engine m', entityEmbeddings := Some v'\<rparr>"
proof -
  from assms obtain v where v: "entityEmbeddings m = Some v"
    by (auto simp: resize_entities_def split: option.splits)
  show ?thesis
  proof (cases "n > shape0 v")
    case True
    with assms v obtain e new t where
      c: "createEmbeddingsInBatches ops m (n - shape0 v) (embeddingSize m) = Some (Inr (e, new))"
      and cat: "concat0 [v, new] = Inr t"
      and m': "m' = m\<lparr>engine := e, entityEmbeddings := Some t\<rparr>"
      by (auto simp: resize_entities_def Let_def split: option.splits sum.splits)
    from createEmbeddingsInBatches_shape [OF c] have "shape0 new = n - shape0 v"
      and "well_shaped new" by simp_all
    from grown_concat0 [OF cat this] m' v show ?thesis by auto
  next
    case False
    with assms v have "m' = m" by (simp add: resize_entities_def)
    with False v grown_refl [of n v] show ?thesis by auto
  qed
qed

lemma resizeEmbeddingsIfNeeded_result:
  assumes "resizeEmbeddingsIfNeeded ops m = Some (Inr m')"
  shows "\<exists>u u' v v'. userEmbeddings m = Some u \<and> entityEmbeddings m = Some v \<and>
           grown u (length (getAllUsers (storage m))) u' \<and>
           grown v (length (getAllEntities (storage m))) v' \<and>
           m' = m\<lparr>engine := engine m', userEmbeddings := Some u', entityEmbeddings := Some v'\<rparr>"
proof -
  from assms obtain m1 where
    r1: "resize_users ops m (length (getAllUsers (storage m))) = Some (Inr m1)"
    and r2: "resize_entities ops m1 (length (getAllEntities (storage m))) = Some (Inr m')"
    by (auto simp: resizeEmbeddingsIfNeeded_def Let_def split: option.splits sum.splits)
  from resize_users_result [OF r1] obtain u u' where
    u: "userEmbeddings m = Some u" "grown u (length (getAllUsers (storage m))) u'"
    and m1: "m1 = m\<lparr>engine := engine m1, userEmbeddings := Some u'\<rparr>" by blast
  from resize_entities_result [OF r2] obtain v v' where
    v: "entityEmbeddings m1 = Some v" "grown v (length (getAllEntities (storage m))) v'"
    and m': "m' = m1\<lparr>engine := engine m', entityEmbeddings := Some v'\<rparr>" by blast
  have "entityEmbeddings m1 = entityEmbeddings m" by (subst m1) simp
  with v(1) have v0: "entityEmbeddings m = Some v" by simp
  have "m' = m\<lparr>engine := engine m', userEmbeddings := Some u', entityEmbeddings := Some v'\<rparr>"
    by (subst m', subst m1) simp
  with u v v0 show ?thesis by blast
qed

subsubsection \<open>Training\<close>

lemma same_shape_refl: "same_shape t t"
  by (simp add: same_shape_def)

lemma same_shape_trans: "same_shape t t' \<Longrightarrow> same_shape t' t'' \<Longrightarrow> same_shape t t''"
  by (simp add: same_shape_def)

lemma rel_same_shape_refl: "rel_option same_shape x x"
  by (cases x) (simp_all add: same_shape_refl)

lemma rel_same_shape_trans:
  "rel_option same_shape x y \<Longrightarrow> rel_option same_shape y z \<Longrightarrow> rel_option same_shape x z"
  by (cases x; cases y; cases z) (auto intro: same_shape_trans)

lemma trained_from_refl: "trained_from m m"
  by (simp add: trained_from_def rel_same_shape_refl)

lemma trained_from_trans:
  "trained_from m m' \<Longrightarrow> trained_from m' m'' \<Longrightarrow> trained_from m m''"
  unfolding trained_from_def by (auto intro: rel_same_shape_trans)

lemma train_interaction_shape:
  "train_interaction ops m x = Inr m' \<Longrightarrow> trained_from m m'"
  by (auto simp: train_interaction_def Let_def trained_from_def same_shape_def
      rel_same_shape_refl split: option.splits sum.splits)

lemma train_batch_shape: "train_batch ops m xs = Inr m' \<Longrightarrow> trained_from m m'"
proof (induction xs arbitrary: m)
  case Nil
  then show ?case by (simp add: trained_from_refl)
next
  case (Cons x xs)
  then obtain m1 where a: "train_interaction ops m x = Inr m1"
    and b: "train_batch ops m1 xs = Inr m'"
    by (auto split: sum.splits)
  from train_interaction_shape [OF a] Cons.IH [OF b] show ?case
    by (rule trained_from_trans)
qed

lemma train_loop_shape:
  "train_loop ops m data i = Some r \<Longrightarrow> (\<forall>m'. r = Inr m' \<longrightarrow> trained_from m m')"
proof (induction rule: train_loop.raw_induct [rotated 1, consumes 1])
  case (1 loop ops m data i r)
  show ?case
  proof (cases "i < length data")
    case True
    let ?batch = "slice data (int i) (int i + int (batchSize m))"
    show ?thesis
    proof (cases "train_batch ops m ?batch")
      case (Inl err)
      with 1(2) True show ?thesis by (auto simp: Let_def)
    next
      case (Inr m1)
      with 1(2) True have "loop ops m1 data (i + batchSize m1) = Some r"
        by (simp add: Let_def)
      from 1(1) [OF this] train_batch_shape [OF Inr] show ?thesis
        by (blast intro: trained_from_trans)
    qed
  next
    case False
    with 1(2) show ?thesis by (auto simp: trained_from_refl)
  qed
qed

lemma epoch_loop_shape:
  "epoch_loop ops m data e = Some r \<Longrightarrow> (\<forall>m'. r = Inr m' \<longrightarrow> trained_from m m')"
proof (induction rule: epoch_loop.raw_induct [rotated 1, consumes 1])
  case (1 loop ops m data e r)
  show ?case
  proof (cases "e < epoch m")
    case True
    show ?thesis
    proof (cases "trainEpochInBatches ops m data")
      case None
      with 1(2) True show ?thesis by simp
    next
      case (Some r1)
      show ?thesis
      proof (cases r1)
        case (Inl err)
        with 1(2) True Some show ?thesis by auto
      next
        case (Inr m1)
        with Some have "train_loop ops m data 0 = Some (Inr m1)"
          by (simp add: trainEpochInBatches_def)
        from train_loop_shape [OF this] have t: "trained_from m m1" by simp
        from 1(2) True Some Inr have "loop ops m1 data (e + 1) = Some r" by simp
        from 1(1) [OF this] t show ?thesis by (blast intro: trained_from_trans)
      qed
    qed
  next
    case False
    with 1(2) show ?thesis by (auto simp: trained_from_refl)
  qed
qed

subsubsection \<open>The phases of fit\<close>

lemma registration_and_sizing_cases:
  assumes "registration_and_sizing ops m data = Some (Inr m2)"
  shows "(\<not> initialized m \<and>
          initializeEmbeddings ops (m\<lparr>storage := register_batch (storage m) data\<rparr>) =
            Some (Inr m2)) \<or>
         (initialized m \<and>
          resizeEmbeddingsIfNeeded ops (m\<lparr>storage := register_batch (storage m) data\<rparr>) =
            Some (Inr m2))"
proof -
  from assms obtain m1 where r: "registerUsersAndEntitiesInBatches m data = Some m1"
    by (auto simp: registration_and_sizing_def split: option.splits)
  from registerUsersAndEntitiesInBatches_result [OF r]
  have m1: "m1 = m\<lparr>storage := register_batch (storage m) data\<rparr>" .
  then have "initialized m1 = initialized m" by simp
  with assms r m1 show ?thesis
    by (auto simp: registration_and_sizing_def split: if_splits)
qed

lemma fit_phases:
  assumes "fit ops m data = Some (Inr m')" and "data \<noteq> []"
  shows "\<exists>m2. registration_and_sizing ops m data = Some (Inr m2) \<and> trained_from m2 m'"
proof -
  from assms obtain m2 where s: "registration_and_sizing ops m data = Some (Inr m2)"
    and e: "epoch_loop ops m2 data 0 = Some (Inr m')"
    by (auto simp: fit_def split: option.splits sum.splits)
  from epoch_loop_shape [OF e] s show ?thesis by blast
qed

lemma grown_nth: "grown t n t' \<Longrightarrow> s < shape0 t \<Longrightarrow> rows t' ! s = rows t ! s"
  by (auto simp: grown_def shape0_def nth_append)

lemma grown_shape0: "grown t n t' \<Longrightarrow> shape0 t' = max (shape0 t) n"
  by (auto simp: grown_def shape0_def)

text \<open>
  C3. After the registration phase and \<^verbatim>\<open>resizeEmbeddingsIfNeeded\<close>, which is what
  \<^verbatim>\<open>fit\<close> runs on an initialized model before any training step, each matrix is the
  matrix it was before the call with new rows appended at its end: every row that
  existed before the call holds the vector it held, and the rows appended are as many
  as the slots exceed the old rows.
\<close>

theorem growth_preserves_rows:
  assumes "registerUsersAndEntitiesInBatches m data = Some m1"
    and "resizeEmbeddingsIfNeeded ops m1 = Some (Inr m2)"
    and "userEmbeddings m = Some u" and "entityEmbeddings m = Some v"
  shows "(initialized m \<longrightarrow> registration_and_sizing ops m data = Some (Inr m2)) \<and>
         (\<exists>u' v'. userEmbeddings m2 = Some u' \<and> entityEmbeddings m2 = Some v' \<and>
           (\<forall>s < shape0 u. rows u' ! s = rows u ! s) \<and>
           (\<exists>new. rows u' = rows u @ new \<and>
                  length new = length (getAllUsers (storage m2)) - shape0 u) \<and>
           (\<forall>s < shape0 v. rows v' ! s = rows v ! s) \<and>
           (\<exists>new. rows v' = rows v @ new \<and>
                  length new = length (getAllEntities (storage m2)) - shape0 v))"
proof
  from registerUsersAndEntitiesInBatches_result [OF assms(1)]
  have m1: "m1 = m\<lparr>storage := register_batch (storage m) data\<rparr>" .
  then have i: "initialized m1 = initialized m" and e: "userEmbeddings m1 = Some u"
    "entityEmbeddings m1 = Some v"
    using assms(3,4) by simp_all
  from assms(1,2) i
  show "initialized m \<longrightarrow> registration_and_sizing ops m data = Some (Inr m2)"
    by (simp add: registration_and_sizing_def)
  from resizeEmbeddingsIfNeeded_result [OF assms(2)] e
  obtain u' v' where gu: "grown u (length (getAllUsers (storage m1))) u'"
    and gv: "grown v (length (getAllEntities (storage m1))) v'"
    and m2: "m2 = m1\<lparr>engine := engine m2, userEmbeddings := Some u',
                       entityEmbeddings := Some v'\<rparr>"
    by auto
  have st: "storage m2 = storage m1" by (subst m2) simp
  have eu: "userEmbeddings m2 = Some u'" and ev: "entityEmbeddings m2 = Some v'"
    by (subst m2, simp)+
  from gu gv
  show "\<exists>u' v'. userEmbeddings m2 = Some u' \<and> entityEmbeddings m2 = Some v' \<and>
      (\<forall>s < shape0 u. rows u' ! s = rows u ! s) \<and>
      (\<exists>new. rows u' = rows u @ new \<and>
             length new = length (getAllUsers (storage m2)) - shape0 u) \<and>
      (\<forall>s < shape0 v. rows v' ! s = rows v ! s) \<and>
      (\<exists>new. rows v' = rows v @ new \<and>
             length new = length (getAllEntities (storage m2)) - shape0 v)"
    unfolding st eu ev by (auto simp: grown_nth) (auto simp: grown_def)
qed

lemma registration_and_sizing_sample:
  "registration_and_sizing sample_engine sample_model
     [\<lparr>user = IdStr ''u3'', entity = IdStr ''e1'', rating = None\<rparr>] =
   Some (Inr (sample_model
     \<lparr>storage :=
        \<lparr>userMap = [(IdStr ''u1'', 0), (IdStr ''u2'', 1), (IdStr ''u3'', 2)],
         entityMap = [(IdStr ''e1'', 0), (IdNum 7, 1)],
         reverseUserMap = [Some (IdStr ''u1''), Some (IdStr ''u2''), Some (IdStr ''u3'')],
         reverseEntityMap = [Some (IdStr ''e1''), Some (IdNum 7)]\<rparr>,
      userEmbeddings := Some \<lparr>rows = [[7, 8], [3, 4], [11, 12]], cols = 2\<rparr>,
      engine := (13, Some (2, 2))\<rparr>))"
  by (simp add: registration_and_sizing_def registerUsersAndEntitiesInBatches_def
      register_loop.simps register_batch_def resizeEmbeddingsIfNeeded_def resize_users_def
      resize_entities_def createEmbeddingsInBatches_def createEmbeddings_loop.simps
      sample_engine_def sample_model_def slice_def slice_bound_def Let_def
      storage_simps tensor_simps upt_rec)

lemma register_sample:
  "registerUsersAndEntitiesInBatches sample_model
     [\<lparr>user = IdStr ''u3'', entity = IdStr ''e1'', rating = None\<rparr>] =
   Some (sample_model
     \<lparr>storage :=
        \<lparr>userMap = [(IdStr ''u1'', 0), (IdStr ''u2'', 1), (IdStr ''u3'', 2)],
         entityMap = [(IdStr ''e1'', 0), (IdNum 7, 1)],
         reverseUserMap = [Some (IdStr ''u1''), Some (IdStr ''u2''), Some (IdStr ''u3'')],
         reverseEntityMap = [Some (IdStr ''e1''), Some (IdNum 7)]\<rparr>\<rparr>)"
  by (simp add: registerUsersAndEntitiesInBatches_def register_loop.simps register_batch_def
      sample_model_def slice_def slice_bound_def Let_def storage_simps)

theorem growth_preserves_rows_witness:
  "initialized sample_model \<and>
   userEmbeddings sample_model = Some \<lparr>rows = [[7, 8], [3, 4]], cols = 2\<rparr> \<and>
   (\<exists>m2 u'. registration_and_sizing sample_engine sample_model
        [\<lparr>user = IdStr ''u3'', entity = IdStr ''e1'', rating = None\<rparr>] = Some (Inr m2) \<and>
      userEmbeddings m2 = Some u' \<and> length (rows u') = 3 \<and>
      rows u' ! 0 = [7, 8] \<and> rows u' ! 1 = [3, 4])"
proof -
  let ?u = "\<lparr>rows = [[7, 8], [3, 4]], cols = 2\<rparr>"
  let ?v = "\<lparr>rows = [[10, 11], [8, 9]], cols = 2\<rparr>"
  let ?data = "[\<lparr>user = IdStr ''u3'', entity = IdStr ''e1'', rating = None\<rparr>]"
  have i: "initialized sample_model" and u: "userEmbeddings sample_model = Some ?u"
    and v: "entityEmbeddings sample_model = Some ?v"
    by (simp_all add: sample_model_def)
  obtain m1 where r: "registerUsersAndEntitiesInBatches sample_model ?data = Some m1"
    using register_sample by simp
  obtain m2 where s: "registration_and_sizing sample_engine sample_model ?data = Some (Inr m2)"
    and n: "length (getAllUsers (storage m2)) = 3"
    using registration_and_sizing_sample by (simp add: getAllUsers_def)
  from registerUsersAndEntitiesInBatches_result [OF r] i have "initialized m1" by simp
  with s r have z: "resizeEmbeddingsIfNeeded sample_engine m1 = Some (Inr m2)"
    by (simp add: registration_and_sizing_def)
  from growth_preserves_rows [OF r z u v] n
  obtain u' where "userEmbeddings m2 = Some u'" "length (rows u') = 3"
    "rows u' ! 0 = [7, 8]" "rows u' ! 1 = [3, 4]"
    by (auto simp: shape0_def)
  with i u s show ?thesis by blast
qed

text \<open>
  C2, as stated for any model, fails on a model loaded from a document with more rows
  than slots: \<^verbatim>\<open>fit\<close> succeeds on it and the user matrix keeps its two rows for one
  user slot, since \<^verbatim>\<open>resizeEmbeddingsIfNeeded\<close> only ever grows a matrix.
\<close>

theorem fit_row_counts_counterexample:
  "from_model sample_engine skewed_document None = Inr skewed_model \<and>
   fit sample_engine skewed_model
     [\<lparr>user = IdStr ''u1'', entity = IdStr ''e1'', rating = Some 5\<rparr>] =
     Some (Inr skewed_fitted) \<and>
   map_option shape0 (userEmbeddings skewed_fitted) = Some 2 \<and>
   length (getAllUsers (storage skewed_fitted)) = 1"
  by (simp add: from_model_def skewed_document_def skewed_model_def skewed_fitted_def
      tensor2d_def Recommendation_new_def importData_def Map_new_def InMemoryStorage_new_def
      fit_def registration_and_sizing_def registerUsersAndEntitiesInBatches_def
      register_loop.simps register_batch_def resizeEmbeddingsIfNeeded_def resize_users_def
      resize_entities_def epoch_loop.simps trainEpochInBatches_def train_loop.simps
      train_interaction_def sample_engine_def slice_def slice_bound_def Let_def
      storage_simps tensor_simps upt_rec)

text \<open>
  C2, amended. After a successful \<^verbatim>\<open>fit\<close> on a non-empty interaction list both
  matrices are defined. If the model was not initialized before the call, each matrix
  has as many rows as the storage has slots. If it was, each matrix has the larger of
  its row count before the call and the slot count after it; so the row count equals
  the slot count whenever the matrix had no more rows than the storage had slots when
  the call began.
\<close>

theorem fit_row_counts:
  assumes "fit ops m data = Some (Inr m')" and "data \<noteq> []"
  shows "\<exists>u' v'. userEmbeddings m' = Some u' \<and> entityEmbeddings m' = Some v' \<and>
     (\<not> initialized m \<longrightarrow>
        shape0 u' = length (getAllUsers (storage m')) \<and>
        shape0 v' = length (getAllEntities (storage m'))) \<and>
     (initialized m \<longrightarrow>
        (\<exists>u v. userEmbeddings m = Some u \<and> entityEmbeddings m = Some v \<and>
           shape0 u' = max (shape0 u) (length (getAllUsers (storage m'))) \<and>
           shape0 v' = max (shape0 v) (length (getAllEntities (storage m'))) \<and>
           (shape0 u \<le> length (getAllUsers (storage m)) \<longrightarrow>
              shape0 u' = length (getAllUsers (storage m'))) \<and>
           (shape0 v \<le> length (getAllEntities (storage m)) \<longrightarrow>
              shape0 v' = length (getAllEntities (storage m')))))"
proof -
  let ?m1 = "m\<lparr>storage := register_batch (storage m) data\<rparr>"
  from fit_phases [OF assms] obtain m2 where
    s: "registration_and_sizing ops m data = Some (Inr m2)" and t: "trained_from m2 m'"
    by blast
  from t have st: "storage m' = storage m2" by (simp add: trained_from_def)
  have mono: "length (getAllUsers (storage m)) \<le> length (getAllUsers (storage ?m1))"
    "length (getAllEntities (storage m)) \<le> length (getAllEntities (storage ?m1))"
    using reverse_apply_calls [of "storage m" "calls_of data"]
    by (simp_all add: register_batch_calls getAllUsers_def getAllEntities_def)
  show ?thesis
  proof (cases "initialized m")
    case False
    with registration_and_sizing_cases [OF s]
    have "initializeEmbeddings ops ?m1 = Some (Inr m2)" by simp
    from initializeEmbeddings_result [OF this] obtain u2 v2 where
      m2: "m2 = ?m1\<lparr>engine := engine m2, userEmbeddings := Some u2,
                      entityEmbeddings := Some v2, initialized := True\<rparr>"
      and su: "shape0 u2 = length (getAllUsers (storage ?m1))"
      and sv: "shape0 v2 = length (getAllEntities (storage ?m1))"
      by auto
    have s2: "storage m2 = storage ?m1" and eu: "userEmbeddings m2 = Some u2"
      and ev: "entityEmbeddings m2 = Some v2"
      by (subst m2, simp)+
    from t eu ev obtain u' v' where "userEmbeddings m' = Some u'" "same_shape u2 u'"
      "entityEmbeddings m' = Some v'" "same_shape v2 v'"
      by (auto simp: trained_from_def option_rel_Some1)
    with False su sv st s2 show ?thesis by (auto simp: same_shape_def)
  next
    case True
    with registration_and_sizing_cases [OF s]
    have "resizeEmbeddingsIfNeeded ops ?m1 = Some (Inr m2)" by simp
    from resizeEmbeddingsIfNeeded_result [OF this] obtain u v u2 v2 where
      u: "userEmbeddings m = Some u" and v: "entityEmbeddings m = Some v"
      and gu: "grown u (length (getAllUsers (storage ?m1))) u2"
      and gv: "grown v (length (getAllEntities (storage ?m1))) v2"
      and m2: "m2 = ?m1\<lparr>engine := engine m2, userEmbeddings := Some u2,
                      entityEmbeddings := Some v2\<rparr>"
      by auto
    have s2: "storage m2 = storage ?m1" and eu: "userEmbeddings m2 = Some u2"
      and ev: "entityEmbeddings m2 = Some v2"
      by (subst m2, simp)+
    from t eu ev obtain u' v' where e': "userEmbeddings m' = Some u'" "same_shape u2 u'"
      "entityEmbeddings m' = Some v'" "same_shape v2 v'"
      by (auto simp: trained_from_def option_rel_Some1)
    from e' grown_shape0 [OF gu] grown_shape0 [OF gv]
    have "shape0 u' = max (shape0 u) (length (getAllUsers (storage m')))"
      and "shape0 v' = max (shape0 v) (length (getAllEntities (storage m')))"
      by (simp_all add: same_shape_def st s2)
    with True u v e' mono st s2 show ?thesis by auto
  qed
qed

lemma from_sample: "from_model sample_engine (sample_document True) None = Inr loaded_model"
  by (simp add: sample_document_def loaded_model_def sample_model_def from_model_def
      tensor2d_def sample_engine_def Recommendation_new_def importData_def Map_new_def
      InMemoryStorage_new_def Let_def)

lemma fit_loaded:
  "fit sample_engine loaded_model
     [\<lparr>user = IdStr ''u3'', entity = IdStr ''e1'', rating = None\<rparr>] =
   Some (Inr loaded_fitted)"
  by (simp add: fit_def registration_and_sizing_def registerUsersAndEntitiesInBatches_def
      register_loop.simps register_batch_def resizeEmbeddingsIfNeeded_def resize_users_def
      resize_entities_def createEmbeddingsInBatches_def createEmbeddings_loop.simps
      epoch_loop.simps trainEpochInBatches_def train_loop.simps train_interaction_def
      sample_engine_def sample_model_def loaded_model_def loaded_fitted_def
      slice_def slice_bound_def Let_def storage_simps tensor_simps upt_rec)

text \<open>
  On the model that \<^verbatim>\<open>fit\<close> built, whose optimizer has made its first step, a second
  \<^verbatim>\<open>fit\<close> that registers a new user grows the user matrix and then throws at the first
  training step, with the optimizer of the sample engine.
\<close>

lemma fit_sample_again:
  "fit sample_engine sample_model
     [\<lparr>user = IdStr ''u3'', entity = IdStr ''e1'', rating = None\<rparr>] =
   Some (Inl EngineError)"
  by (simp add: fit_def registration_and_sizing_sample)
    (simp add: epoch_loop.simps trainEpochInBatches_def train_loop.simps
      train_interaction_def sample_engine_def sample_model_def slice_def slice_bound_def
      Let_def storage_simps tensor_simps upt_rec)

theorem fit_row_counts_witness:
  "fit sample_engine (Recommendation_new sample_engine sample_options) sample_data =
     Some (Inr sample_model) \<and>
   sample_data \<noteq> [] \<and>
   \<not> initialized (Recommendation_new sample_engine sample_options) \<and>
   (\<exists>u' v'. userEmbeddings sample_model = Some u' \<and> entityEmbeddings sample_model = Some v' \<and>
      shape0 u' = length (getAllUsers (storage sample_model)) \<and>
      shape0 v' = length (getAllEntities (storage sample_model))) \<and>
   from_model sample_engine (sample_document True) None = Inr loaded_model \<and>
   initialized loaded_model \<and>
   (\<exists>m' u' v'. fit sample_engine loaded_model
        [\<lparr>user = IdStr ''u3'', entity = IdStr ''e1'', rating = None\<rparr>] = Some (Inr m') \<and>
      userEmbeddings m' = Some u' \<and> entityEmbeddings m' = Some v' \<and>
      shape0 u' = 3 \<and> length (getAllUsers (storage m')) = 3 \<and>
      shape0 v' = 2 \<and> length (getAllEntities (storage m')) = 2)"
proof -
  have n: "sample_data \<noteq> []" by (simp add: sample_data_def)
  have i: "\<not> initialized (Recommendation_new sample_engine sample_options)"
    by (simp add: Recommendation_new_def Let_def)
  from fit_row_counts [OF fit_sample n] i
  have a: "\<exists>u' v'. userEmbeddings sample_model = Some u' \<and> entityEmbeddings sample_model = Some v' \<and>
      shape0 u' = length (getAllUsers (storage sample_model)) \<and>
      shape0 v' = length (getAllEntities (storage sample_model))"
    by blast
  have j: "initialized loaded_model"
    and u: "userEmbeddings loaded_model = Some \<lparr>rows = [[7, 8], [3, 4]], cols = 2\<rparr>"
    and v: "entityEmbeddings loaded_model = Some \<lparr>rows = [[10, 11], [8, 9]], cols = 2\<rparr>"
    and l: "length (getAllUsers (storage loaded_model)) = 2"
      "length (getAllEntities (storage loaded_model)) = 2"
    by (simp_all add: loaded_model_def sample_model_def getAllUsers_def getAllEntities_def)
  obtain m' where f: "fit sample_engine loaded_model
      [\<lparr>user = IdStr ''u3'', entity = IdStr ''e1'', rating = None\<rparr>] = Some (Inr m')"
    and s: "length (getAllUsers (storage m')) = 3" "length (getAllEntities (storage m')) = 2"
    using fit_loaded
    by (simp add: getAllUsers_def getAllEntities_def loaded_fitted_def loaded_model_def
        sample_model_def)
  from fit_row_counts [OF f] j u v l s
  have "\<exists>u' v'. userEmbeddings m' = Some u' \<and> entityEmbeddings m' = Some v' \<and>
      shape0 u' = 3 \<and> shape0 v' = 2"
    by (auto simp: shape0_def)
  with f s have b: "\<exists>m' u' v'. fit sample_engine loaded_model
        [\<lparr>user = IdStr ''u3'', entity = IdStr ''e1'', rating = None\<rparr>] = Some (Inr m') \<and>
      userEmbeddings m' = Some u' \<and> entityEmbeddings m' = Some v' \<and>
      shape0 u' = 3 \<and> length (getAllUsers (storage m')) = 3 \<and>
      shape0 v' = 2 \<and> length (getAllEntities (storage m')) = 2"
    by blast
  from fit_sample n i a from_sample j b show ?thesis by blast
qed

subsection \<open>Export and import\<close>

lemma length_concat_rows:
  "list_all (\<lambda>r. length r = c) rs \<Longrightarrow> length (concat rs) = length rs * c"
  by (induction rs) simp_all

lemma well_shaped_size: "well_shaped t \<Longrightarrow> length (concat (rows t)) = shape0 t * cols t"
  by (simp add: well_shaped_def shape0_def length_concat_rows)

lemma well_shaped_canonical: "well_shaped t \<Longrightarrow> canonical t"
  by (simp add: canonical_def)

lemma float32_concat:
  "list_all (list_all (\<lambda>x. f x = x)) rs \<Longrightarrow> map f (concat rs) = concat rs"
  by (induction rs) (simp_all add: list_all_iff map_idI)

lemma array_rows:
  assumes "array t = Inr a" and "canonical t" and "shape0 t * cols t \<noteq> 0"
  shows "well_shaped t \<and> a = rows t"
proof -
  from assms(1,3) have s: "length (concat (rows t)) = shape0 t * cols t"
    and a: "a = rechunk (shape0 t) (cols t) (concat (rows t))"
    by (auto simp: array_def split: if_splits)
  from s assms(2) have w: "well_shaped t" by (simp add: canonical_def)
  then have "rechunk (length (rows t)) (cols t) (concat (rows t)) = rows t"
    by (simp add: well_shaped_def rechunk_concat)
  with a w show ?thesis by (simp add: shape0_def)
qed

lemma tensor2d_rows:
  assumes "well_shaped t" and "float32 ops t" and "0 < shape0 t"
  shows "tensor2d ops (rows t) = Inr t"
proof -
  from assms(3) obtain r rs where r: "rows t = r # rs"
    by (cases "rows t") (auto simp: shape0_def)
  with assms(1) have c: "length r = cols t" by (simp add: well_shaped_def)
  from assms(2) have "map (fround ops) (concat (rows t)) = concat (rows t)"
    by (simp add: float32_def float32_concat)
  moreover from assms(1) have "rechunk (length (rows t)) (cols t) (concat (rows t)) = rows t"
    by (simp add: well_shaped_def rechunk_concat)
  ultimately have "tensor2d ops (rows t) = Inr \<lparr>rows = rows t, cols = cols t\<rparr>"
    unfolding tensor2d_def r using c by (simp add: r)
  then show ?thesis by simp
qed

lemma tensor2d_of_array:
  assumes "array t = Inr a" and "faithful ops t"
  shows "tensor2d ops a = (if 0 < shape0 t \<and> 0 < cols t then Inr t else Inl EngineError)"
proof (cases "shape0 t * cols t = 0")
  case True
  with assms(1) have "a = []" by (simp add: array_def)
  with True show ?thesis by (auto simp: tensor2d_def)
next
  case False
  from assms(2) have "canonical t" and f: "float32 ops t" by (simp_all add: faithful_def)
  from array_rows [OF assms(1) this(1) False] have w: "well_shaped t" and a: "a = rows t"
    by simp_all
  from False have "0 < shape0 t" by simp
  from tensor2d_rows [OF w f this] a False show ?thesis by simp
qed

lemma import_export_storage:
  assumes "Map_ok (userMap st)" and "Map_ok (entityMap st)"
  shows "importData st0
           \<lparr>sd_userMap = sd_userMap (exportData st), sd_entityMap = sd_entityMap (exportData st),
            sd_reverseUserMap = sd_reverseUserMap (exportData st),
            sd_reverseEntityMap = sd_reverseEntityMap (exportData st)\<rparr> = st"
  using assms
  by (simp add: importData_def exportData_def Map_entries_def Map_ok_def Map_new_distinct)

lemma query_ignores_engine:
  "getEntities (m\<lparr>engine := e\<rparr>) ident count = getEntities m ident count"
  "getUsers (m\<lparr>engine := e\<rparr>) ident count = getUsers m ident count"
  by (simp_all add: getEntities_def getUsers_def split: option.splits sum.splits)

lemma export_Inr:
  assumes "export m = Inr d"
  obtains u v a b where "initialized m" and "userEmbeddings m = Some u"
    and "entityEmbeddings m = Some v" and "array u = Inr a" and "array v = Inr b"
    and "d = \<lparr>sm_config = \<lparr>c_epoch = epoch m, c_embeddingSize = embeddingSize m,
                    c_learningRate = learningRate m, c_batchSize = batchSize m\<rparr>,
       sm_userEmbeddings = a, sm_entityEmbeddings = b,
       sm_userMap = sd_userMap (exportData (storage m)),
       sm_entityMap = sd_entityMap (exportData (storage m)),
       sm_reverseUserMap = sd_reverseUserMap (exportData (storage m)),
       sm_reverseEntityMap = sd_reverseEntityMap (exportData (storage m)),
       sm_initialized = True, sm_version = ''1.0.0''\<rparr>"
  using assms
  by (auto simp: export_def Let_def split: if_splits option.splits sum.splits)

lemma from_export:
  assumes "Map_ok (userMap (storage m))" and "Map_ok (entityMap (storage m))"
    and "userEmbeddings m = Some u" and "entityEmbeddings m = Some v"
    and "faithful ops u" and "faithful ops v" and "export m = Inr d"
  shows "from_model ops d None =
           (if 0 < shape0 u \<and> 0 < cols u \<and> 0 < shape0 v \<and> 0 < cols v
            then Inr (m\<lparr>engine := train_adam ops (learningRate m)\<rparr>)
            else Inl EngineError)"
proof -
  from assms(7) obtain u0 v0 a b where i: "initialized m"
    and e: "userEmbeddings m = Some u0" "entityEmbeddings m = Some v0"
    and ab: "array u0 = Inr a" "array v0 = Inr b"
    and d: "d = \<lparr>sm_config = \<lparr>c_epoch = epoch m, c_embeddingSize = embeddingSize m,
                    c_learningRate = learningRate m, c_batchSize = batchSize m\<rparr>,
       sm_userEmbeddings = a, sm_entityEmbeddings = b,
       sm_userMap = sd_userMap (exportData (storage m)),
       sm_entityMap = sd_entityMap (exportData (storage m)),
       sm_reverseUserMap = sd_reverseUserMap (exportData (storage m)),
       sm_reverseEntityMap = sd_reverseEntityMap (exportData (storage m)),
       sm_initialized = True, sm_version = ''1.0.0''\<rparr>"
    by (rule export_Inr)
  from e assms(3,4) ab have au: "array u = Inr a" and av: "array v = Inr b" by simp_all
  have m: "m = \<lparr>storage = storage m, userEmbeddings = Some u, entityEmbeddings = Some v,
      engine = engine m, embeddingSize = embeddingSize m, learningRate = learningRate m,
      epoch = epoch m, batchSize = batchSize m, initialized = True\<rparr>"
    using assms(3,4) i by (cases m) simp
  show ?thesis
    unfolding d from_model_def Recommendation_new_def
    by (subst (3) m)
      (simp add: Let_def import_export_storage [OF assms(1,2)]
        tensor2d_of_array [OF au assms(5)] tensor2d_of_array [OF av assms(6)])
qed

lemma Map_set_keys:
  "map fst (Map_set m k v) = (if k \<in> fst ` set m then map fst m else map fst m @ [k])"
  by (induction m k v rule: Map_set.induct) auto

lemma Map_ok_Map_set: "Map_ok m \<Longrightarrow> Map_ok (Map_set m k v)"
  by (simp add: Map_ok_def Map_set_keys)

lemma Map_ok_Map_new: "Map_ok (Map_new es)"
proof -
  have "Map_ok acc \<Longrightarrow> Map_ok (foldl (\<lambda>m (k, v). Map_set m k v) acc es)" for acc :: "('a \<times> 'b) list"
    by (induction es arbitrary: acc) (auto simp: Map_ok_Map_set)
  from this [of "[]"] show ?thesis by (simp add: Map_new_def Map_ok_def)
qed

lemma storage_ok_apply_call: "storage_ok st \<Longrightarrow> storage_ok (apply_call st c)"
  by (cases c)
    (simp_all add: storage_ok_def getOrCreateUserIndex_def getOrCreateEntityIndex_def Let_def
      Map_ok_Map_set)

lemma storage_ok_apply_calls: "storage_ok st \<Longrightarrow> storage_ok (apply_calls st cs)"
  unfolding apply_calls_def
  by (induction cs arbitrary: st) (simp_all add: storage_ok_apply_call del: apply_call.simps)

text \<open>
  The models that the constructor, \<^verbatim>\<open>from\<close> and \<^verbatim>\<open>fit\<close> build are \<open>represented\<close>, for
  an engine whose rounding leaves rounded numbers as they are.
\<close>

lemma float32_tensor_of:
  "idempotent_fround ops \<Longrightarrow> float32 ops (tensor_of n d (stored ops f))"
  by (simp add: float32_def tensor_of_def stored_def list_all_iff idempotent_fround_def)

lemma faithful_tensor_of:
  "idempotent_fround ops \<Longrightarrow> faithful ops (tensor_of n d (stored ops f))"
  by (simp add: faithful_def float32_tensor_of well_shaped_canonical)

lemma faithful_assign: "idempotent_fround ops \<Longrightarrow> faithful ops (assign t (stored ops f))"
  by (simp add: assign_def faithful_tensor_of)

lemma float32_rechunk:
  "list_all P xs \<Longrightarrow> list_all (list_all P) (rechunk n c xs)"
proof (induction n c xs rule: rechunk.induct)
  case (3 n c xs)
  from 3(2) have "list_all P (take c xs)" "list_all P (drop c xs)"
    by (auto simp: list_all_iff dest: in_set_takeD in_set_dropD)
  with 3(1) show ?case by simp
qed simp_all

lemma faithful_tensor2d:
  assumes "idempotent_fround ops" and "tensor2d ops vs = Inr t"
  shows "faithful ops t"
proof -
  from assms(1) have "list_all (\<lambda>x. fround ops x = x) (map (fround ops) (concat vs))"
    by (simp add: list_all_iff idempotent_fround_def)
  then have "list_all (list_all (\<lambda>x. fround ops x = x))
      (rechunk (length vs) (length (hd vs)) (map (fround ops) (concat vs)))"
    by (rule float32_rechunk)
  with tensor2d_Inr(5) [OF assms(2)] have "float32 ops t" by (simp add: float32_def)
  with tensor2d_canonical [OF assms(2)] show ?thesis by (simp add: faithful_def)
qed

lemma faithful_concat0:
  assumes "concat0 [t, new] = Inr t'" and "faithful ops t" and "float32 ops new"
    and "well_shaped new"
  shows "faithful ops t'"
proof -
  from concat0_Inr [OF assms(1)]
  have r: "rows t' = rows t @ rows new" and c: "cols t = cols t'" "cols new = cols t'"
    by simp_all
  from assms(2,3) r have f: "float32 ops t'" by (simp add: faithful_def float32_def)
  have "canonical t'"
    unfolding canonical_def
  proof
    assume "length (concat (rows t')) = shape0 t' * cols t'"
    with r c well_shaped_size [OF assms(4)]
    have "length (concat (rows t)) = shape0 t * cols t"
      by (simp add: shape0_def algebra_simps)
    with assms(2) have "well_shaped t" by (simp add: faithful_def canonical_def)
    with assms(4) concat0_well_shaped [OF assms(1)] show "well_shaped t'" by simp
  qed
  with f show ?thesis by (simp add: faithful_def)
qed

lemma createEmbeddings_loop_float32:
  "createEmbeddings_loop ops e b totalSize d i batches = Some r \<Longrightarrow>
   idempotent_fround ops \<longrightarrow> list_all (float32 ops) batches \<longrightarrow> list_all (float32 ops) (snd r)"
proof (induction rule: createEmbeddings_loop.raw_induct [rotated 1, consumes 1])
  case (1 loop ops e b totalSize d i batches r)
  show ?case
  proof (cases "i < totalSize")
    case True
    let ?cur = "min b (totalSize - i)"
    let ?rn = "randomNormal ops e ?cur d"
    let ?batches = "batches @ [tensor_of ?cur d (stored ops (snd ?rn))]"
    from 1(2) True have run: "loop ops (fst ?rn) b totalSize d (i + b) ?batches = Some r"
      by (simp add: Let_def)
    from 1(1) [OF run] show ?thesis by (simp add: float32_tensor_of)
  next
    case False
    with 1(2) show ?thesis by auto
  qed
qed

lemma createEmbeddingsInBatches_float32:
  assumes "idempotent_fround ops"
    and "createEmbeddingsInBatches ops m totalSize d = Some (Inr (e, t))"
  shows "float32 ops t"
proof (cases "totalSize = 0")
  case True
  with assms(2) show ?thesis
    by (auto simp: createEmbeddingsInBatches_def float32_def zeros_def tensor_of_def)
next
  case False
  with assms(2) obtain batches where
    loop: "createEmbeddings_loop ops (engine m) (min (batchSize m) totalSize) totalSize d 0 [] =
             Some (e, batches)"
    and cat: "concat0 batches = Inr t"
    by (auto simp: createEmbeddingsInBatches_def Let_def split: option.splits sum.splits)
  from createEmbeddings_loop_float32 [OF loop] assms(1)
  have "list_all (float32 ops) batches" by simp
  with concat0_Inr [OF cat] show ?thesis
    by (auto simp: float32_def list_all_iff)
qed

lemma represented_new:
  "o_storage options = None \<Longrightarrow> represented ops (Recommendation_new ops options)"
  by (simp add: represented_def Recommendation_new_def Let_def InMemoryStorage_new_def
      Map_ok_def)

lemma represented_from_model:
  assumes "idempotent_fround ops" and "from_model ops d s = Inr m"
  shows "represented ops m"
proof -
  from assms(2) obtain u v where
    t: "tensor2d ops (sm_userEmbeddings d) = Inr u" "tensor2d ops (sm_entityEmbeddings d) = Inr v"
    by (auto simp: from_model_def Let_def split: sum.splits)
  with assms(2) have "userEmbeddings m = Some u" "entityEmbeddings m = Some v"
    "userMap (storage m) = Map_new (sm_userMap d)"
    "entityMap (storage m) = Map_new (sm_entityMap d)"
    by (auto simp: from_model_def Let_def importData_def)
  with t assms(1) show ?thesis
    by (simp add: represented_def Map_ok_Map_new faithful_tensor2d)
qed

lemma train_interaction_represented:
  assumes "idempotent_fround ops" and "represented ops m"
    and "train_interaction ops m x = Inr m'"
  shows "represented ops m'"
  using assms
  by (auto simp: train_interaction_def Let_def represented_def faithful_assign
      split: option.splits sum.splits)

lemma train_batch_represented:
  assumes "idempotent_fround ops"
  shows "represented ops m \<Longrightarrow> train_batch ops m xs = Inr m' \<Longrightarrow> represented ops m'"
proof (induction xs arbitrary: m)
  case Nil
  then show ?case by simp
next
  case (Cons x xs)
  from Cons.prems(2) obtain m1 where a: "train_interaction ops m x = Inr m1"
    and b: "train_batch ops m1 xs = Inr m'"
    by (auto split: sum.splits)
  from train_interaction_represented [OF assms Cons.prems(1) a] b show ?case
    by (rule Cons.IH)
qed

lemma train_loop_represented:
  "train_loop ops m data i = Some r \<Longrightarrow>
   idempotent_fround ops \<longrightarrow> represented ops m \<longrightarrow> (\<forall>m'. r = Inr m' \<longrightarrow> represented ops m')"
proof (induction rule: train_loop.raw_induct [rotated 1, consumes 1])
  case (1 loop ops m data i r)
  show ?case
  proof (cases "i < length data")
    case True
    let ?batch = "slice data (int i) (int i + int (batchSize m))"
    show ?thesis
    proof (cases "train_batch ops m ?batch")
      case (Inl err)
      with 1(2) True show ?thesis by (auto simp: Let_def)
    next
      case (Inr m1)
      with 1(2) True have "loop ops m1 data (i + batchSize m1) = Some r"
        by (simp add: Let_def)
      from 1(1) [OF this] train_batch_represented [OF _ _ Inr] show ?thesis
        by blast
    qed
  next
    case False
    with 1(2) show ?thesis by auto
  qed
qed

lemma epoch_loop_represented:
  "epoch_loop ops m data e = Some r \<Longrightarrow>
   idempotent_fround ops \<longrightarrow> represented ops m \<longrightarrow> (\<forall>m'. r = Inr m' \<longrightarrow> represented ops m')"
proof (induction rule: epoch_loop.raw_induct [rotated 1, consumes 1])
  case (1 loop ops m data e r)
  show ?case
  proof (cases "e < epoch m")
    case True
    show ?thesis
    proof (cases "trainEpochInBatches ops m data")
      case None
      with 1(2) True show ?thesis by simp
    next
      case (Some r1)
      show ?thesis
      proof (cases r1)
        case (Inl err)
        with 1(2) True Some show ?thesis by auto
      next
        case (Inr m1)
        with Some have "train_loop ops m data 0 = Some (Inr m1)"
          by (simp add: trainEpochInBatches_def)
        from train_loop_represented [OF this]
        have t: "idempotent_fround ops \<longrightarrow> represented ops m \<longrightarrow> represented ops m1" by simp
        from 1(2) True Some Inr have "loop ops m1 data (e + 1) = Some r" by simp
        from 1(1) [OF this] t show ?thesis by blast
      qed
    qed
  next
    case False
    with 1(2) show ?thesis by auto
  qed
qed

lemma resize_users_represented:
  assumes "idempotent_fround ops" and "represented ops m"
    and "resize_users ops m n = Some (Inr m')"
  shows "represented ops m'"
proof -
  from assms(3) obtain u where u: "userEmbeddings m = Some u"
    by (auto simp: resize_users_def split: option.splits)
  show ?thesis
  proof (cases "n > shape0 u")
    case True
    with assms(3) u obtain e new t where
      c: "createEmbeddingsInBatches ops m (n - shape0 u) (embeddingSize m) = Some (Inr (e, new))"
      and cat: "concat0 [u, new] = Inr t"
      and m': "m' = m\<lparr>engine := e, userEmbeddings := Some t\<rparr>"
      by (auto simp: resize_users_def Let_def split: option.splits sum.splits)
    from assms(2) u have "faithful ops u" by (simp add: represented_def)
    from faithful_concat0 [OF cat this createEmbeddingsInBatches_float32 [OF assms(1) c]]
      createEmbeddingsInBatches_shape [OF c]
    have "faithful ops t" by simp
    with assms(2) m' show ?thesis by (simp add: represented_def)
  next
    case False
    with assms(3) u have "m' = m" by (simp add: resize_users_def)
    with assms(2) show ?thesis by simp
  qed
qed

lemma resize_entities_represented:
  assumes "idempotent_fround ops" and "represented ops m"
    and "resize_entities ops m n = Some (Inr m')"
  shows "represented ops m'"
proof -
  from assms(3) obtain v where v: "entityEmbeddings m = Some v"
    by (auto simp: resize_entities_def split: option.splits)
  show ?thesis
  proof (cases "n > shape0 v")
    case True
    with assms(3) v obtain e new t where
      c: "createEmbeddingsInBatches ops m (n - shape0 v) (embeddingSize m) = Some (Inr (e, new))"
      and cat: "concat0 [v, new] = Inr t"
      and m': "m' = m\<lparr>engine := e, entityEmbeddings := Some t\<rparr>"
      by (auto simp: resize_entities_def Let_def split: option.splits sum.splits)
    from assms(2) v have "faithful ops v" by (simp add: represented_def)
    from faithful_concat0 [OF cat this createEmbeddingsInBatches_float32 [OF assms(1) c]]
      createEmbeddingsInBatches_shape [OF c]
    have "faithful ops t" by simp
    with assms(2) m' show ?thesis by (simp add: represented_def)
  next
    case False
    with assms(3) v have "m' = m" by (simp add: resize_entities_def)
    with assms(2) show ?thesis by simp
  qed
qed

lemma initializeEmbeddings_represented:
  assumes "idempotent_fround ops" and "represented ops m"
    and "initializeEmbeddings ops m = Some (Inr m')"
  shows "represented ops m'"
proof -
  let ?nu = "length (getAllUsers (storage m))"
  let ?ne = "length (getAllEntities (storage m))"
  from assms(3) obtain e1 u where
    c1: "createEmbeddingsInBatches ops m ?nu (embeddingSize m) = Some (Inr (e1, u))"
    by (auto simp: initializeEmbeddings_def Let_def split: option.splits sum.splits)
  let ?m1 = "m\<lparr>engine := e1, userEmbeddings := Some u\<rparr>"
  from assms(3) c1 obtain e2 v where
    c2: "createEmbeddingsInBatches ops ?m1 ?ne (embeddingSize m) = Some (Inr (e2, v))"
    and m': "m' = ?m1\<lparr>engine := e2, entityEmbeddings := Some v, initialized := True\<rparr>"
    by (auto simp: initializeEmbeddings_def Let_def split: option.splits sum.splits)
  from createEmbeddingsInBatches_float32 [OF assms(1) c1] createEmbeddingsInBatches_shape [OF c1]
  have "faithful ops u" by (simp add: faithful_def well_shaped_canonical)
  moreover
  from createEmbeddingsInBatches_float32 [OF assms(1) c2] createEmbeddingsInBatches_shape [OF c2]
  have "faithful ops v" by (simp add: faithful_def well_shaped_canonical)
  ultimately show ?thesis using assms(2) m' by (simp add: represented_def)
qed

lemma registration_and_sizing_represented:
  assumes "idempotent_fround ops" and "represented ops m"
    and "registration_and_sizing ops m data = Some (Inr m2)"
  shows "represented ops m2"
proof -
  let ?m1 = "m\<lparr>storage := register_batch (storage m) data\<rparr>"
  from assms(2) have "storage_ok (storage m)" by (simp add: represented_def storage_ok_def)
  then have "storage_ok (storage ?m1)"
    by (simp add: register_batch_calls storage_ok_apply_calls)
  with assms(2) have r1: "represented ops ?m1" by (simp add: represented_def storage_ok_def)
  show ?thesis
  proof (cases "initialized m")
    case False
    with registration_and_sizing_cases [OF assms(3)]
    have "initializeEmbeddings ops ?m1 = Some (Inr m2)" by simp
    from initializeEmbeddings_represented [OF assms(1) r1 this] show ?thesis .
  next
    case True
    with registration_and_sizing_cases [OF assms(3)]
    have "resizeEmbeddingsIfNeeded ops ?m1 = Some (Inr m2)" by simp
    then obtain m1' where
      a: "resize_users ops ?m1 (length (getAllUsers (storage ?m1))) = Some (Inr m1')"
      and b: "resize_entities ops m1' (length (getAllEntities (storage ?m1))) = Some (Inr m2)"
      by (auto simp: resizeEmbeddingsIfNeeded_def Let_def split: option.splits sum.splits)
    from resize_entities_represented [OF assms(1) resize_users_represented [OF assms(1) r1 a] b]
    show ?thesis .
  qed
qed

lemma fit_represented:
  assumes "idempotent_fround ops" and "represented ops m" and "fit ops m data = Some (Inr m')"
  shows "represented ops m'"
proof (cases "data = []")
  case True
  with assms show ?thesis by (simp add: fit_def)
next
  case False
  with assms(3) obtain m2 where s: "registration_and_sizing ops m data = Some (Inr m2)"
    and e: "epoch_loop ops m2 data 0 = Some (Inr m')"
    by (auto simp: fit_def split: option.splits sum.splits)
  from epoch_loop_represented [OF e] assms(1)
    registration_and_sizing_represented [OF assms(1,2) s]
  show ?thesis by simp
qed

text \<open>
  C1. The claim reads: for every initialized model, \<^verbatim>\<open>from\<close> of its exported document
  is a model that answers as the original. With embedding size zero it is not:
  \<^verbatim>\<open>fit\<close> builds an initialized model whose matrices have two rows and no column, the
  model answers \<^verbatim>\<open>getEntities\<close>, \<^verbatim>\<open>export\<close> writes its document, in which each matrix
  is the empty array, and \<^verbatim>\<open>from\<close> throws on that document, since \<^verbatim>\<open>tf.tensor2d\<close>
  rejects the empty array.
\<close>

theorem export_from_round_trip_counterexample:
  "fit sample_engine (Recommendation_new sample_engine zero_options) sample_data =
     Some (Inr zero_model) \<and>
   initialized zero_model \<and>
   getEntities zero_model (IdStr ''u1'') 10 = Inr [Some (IdStr ''e1''), Some (IdNum 7)] \<and>
   export zero_model = Inr zero_document \<and>
   from_model sample_engine zero_document None = Inl EngineError"
proof -
  have "fit sample_engine (Recommendation_new sample_engine zero_options) sample_data =
          Some (Inr zero_model)"
    by (simp add: fit_def registration_and_sizing_def registerUsersAndEntitiesInBatches_def
        register_loop.simps register_batch_def initializeEmbeddings_def
        createEmbeddingsInBatches_def createEmbeddings_loop.simps epoch_loop.simps
        trainEpochInBatches_def train_loop.simps train_interaction_def
        Recommendation_new_def zero_options_def sample_data_def sample_engine_def
        zero_model_def InMemoryStorage_new_def slice_def slice_bound_def Let_def
        storage_simps tensor_simps upt_rec)
  moreover have "initialized zero_model" by (simp add: zero_model_def)
  moreover have "getEntities zero_model (IdStr ''u1'') 10 =
      Inr [Some (IdStr ''e1''), Some (IdNum 7)]"
    by (simp add: getEntities_def zero_model_def rankTop_def ranked_def entries_def
        array_sort_def slice_def slice_bound_def Let_def storage_simps tensor_simps
        enumerate_eq_zip upt_rec)
  moreover have "export zero_model = Inr zero_document"
    by (simp add: export_def zero_model_def zero_document_def exportData_def Map_entries_def
        array_def shape0_def Let_def)
  moreover have "from_model sample_engine zero_document None = Inl EngineError"
    by (simp add: from_model_def zero_document_def tensor2d_def Let_def)
  ultimately show ?thesis by simp
qed

text \<open>
  C1, as it holds. Let \<open>m\<close> be a model as the constructor, \<^verbatim>\<open>from\<close> and \<^verbatim>\<open>fit\<close> build
  them (\<open>represented\<close>). Whenever \<^verbatim>\<open>export\<close> returns a document and \<^verbatim>\<open>from\<close> returns a
  model of it, that model is \<open>m\<close> with a fresh optimizer, and \<^verbatim>\<open>getEntities\<close> and
  \<^verbatim>\<open>getUsers\<close> return on it, for every identifier and count, what they return on \<open>m\<close>:
  the same identifiers in the same order. When \<open>m\<close> is initialized and each matrix has
  at least one row and one column and rows of the width its shape says, \<^verbatim>\<open>export\<close>
  returns a document and \<^verbatim>\<open>from\<close> returns that model of it. When \<^verbatim>\<open>export\<close> returns a
  document, \<^verbatim>\<open>from\<close> returns a model of it exactly if each matrix has at least one
  row and one column.
\<close>

theorem export_from_round_trip:
  assumes "represented ops m"
  shows "(export m = Inr d \<and> from_model ops d None = Inr m' \<longrightarrow>
            m' = m\<lparr>engine := train_adam ops (learningRate m)\<rparr> \<and>
            (\<forall>ident count.
               getEntities m' ident count = getEntities m ident count \<and>
               getUsers m' ident count = getUsers m ident count)) \<and>
         (initialized m \<and> userEmbeddings m = Some u \<and> entityEmbeddings m = Some v \<and>
          well_shaped u \<and> well_shaped v \<and>
          0 < shape0 u \<and> 0 < cols u \<and> 0 < shape0 v \<and> 0 < cols v \<longrightarrow>
            (\<exists>d. export m = Inr d \<and>
                 from_model ops d None = Inr (m\<lparr>engine := train_adam ops (learningRate m)\<rparr>))) \<and>
         (export m = Inr d \<and> userEmbeddings m = Some u \<and> entityEmbeddings m = Some v \<longrightarrow>
            ((\<exists>m'. from_model ops d None = Inr m') \<longleftrightarrow>
             0 < shape0 u \<and> 0 < cols u \<and> 0 < shape0 v \<and> 0 < cols v))"
proof (intro conjI impI)
  assume a: "export m = Inr d \<and> from_model ops d None = Inr m'"
  then obtain u v where uv: "userEmbeddings m = Some u" "entityEmbeddings m = Some v"
    by (auto simp: export_def Let_def split: if_splits option.splits sum.splits)
  with assms have r: "Map_ok (userMap (storage m))" "Map_ok (entityMap (storage m))"
    "faithful ops u" "faithful ops v"
    by (simp_all add: represented_def)
  from from_export [OF r(1,2) uv r(3,4), of d] a
  show "m' = m\<lparr>engine := train_adam ops (learningRate m)\<rparr>"
    by (auto split: if_splits)
  then show "\<forall>ident count.
      getEntities m' ident count = getEntities m ident count \<and>
      getUsers m' ident count = getUsers m ident count"
    by (simp add: query_ignores_engine)
next
  assume b: "initialized m \<and> userEmbeddings m = Some u \<and> entityEmbeddings m = Some v \<and>
    well_shaped u \<and> well_shaped v \<and>
    0 < shape0 u \<and> 0 < cols u \<and> 0 < shape0 v \<and> 0 < cols v"
  with assms have r: "Map_ok (userMap (storage m))" "Map_ok (entityMap (storage m))"
    "userEmbeddings m = Some u" "entityEmbeddings m = Some v" "faithful ops u" "faithful ops v"
    by (simp_all add: represented_def)
  from b have "\<exists>a. array u = Inr a" "\<exists>a. array v = Inr a"
    by (simp_all add: array_returns well_shaped_size)
  with b have "\<exists>d. export m = Inr d" by (auto simp: export_returns)
  then obtain d where d: "export m = Inr d" ..
  from from_export [OF r d] b d
  show "\<exists>d. export m = Inr d \<and>
      from_model ops d None = Inr (m\<lparr>engine := train_adam ops (learningRate m)\<rparr>)"
    by auto
next
  assume c: "export m = Inr d \<and> userEmbeddings m = Some u \<and> entityEmbeddings m = Some v"
  with assms have r: "Map_ok (userMap (storage m))" "Map_ok (entityMap (storage m))"
    "userEmbeddings m = Some u" "entityEmbeddings m = Some v" "faithful ops u" "faithful ops v"
    "export m = Inr d"
    by (simp_all add: represented_def)
  from from_export [OF r]
  show "(\<exists>m'. from_model ops d None = Inr m') \<longleftrightarrow>
      0 < shape0 u \<and> 0 < cols u \<and> 0 < shape0 v \<and> 0 < cols v"
    by simp
qed

lemma sound_new:
  "o_storage options = None \<Longrightarrow> sound (Recommendation_new ops options)"
  by (simp add: sound_def Recommendation_new_def Let_def dense_storage_new)

lemma called_calls_of:
  "set (called_users (calls_of data)) = user ` set data"
  "set (called_entities (calls_of data)) = entity ` set data"
  by (induction data) auto

lemma register_batch_nonempty:
  assumes "dense_storage st" and "data \<noteq> []"
  shows "dense_storage (register_batch st data) \<and>
         0 < length (getAllUsers (register_batch st data)) \<and>
         0 < length (getAllEntities (register_batch st data))"
proof -
  let ?st = "register_batch st data"
  from assms(1) have d: "dense_storage ?st"
    by (simp add: register_batch_calls dense_apply_calls)
  from assms(2) obtain x where x: "x \<in> set data" by (cases data) auto
  then have "user x \<in> fst ` set (userMap ?st)" "entity x \<in> fst ` set (entityMap ?st)"
    by (simp_all add: register_batch_calls users_apply_calls entities_apply_calls
        called_calls_of del: set_map)
  then have "userMap ?st \<noteq> []" "entityMap ?st \<noteq> []" by auto
  with d show ?thesis
    by (auto simp: dense_storage_def getAllUsers_def getAllEntities_def dest: dense_length)
qed

lemma trained_from_sound:
  assumes "trained_from m2 m'" and "sound m2"
  shows "sound m'"
proof -
  from assms(1) have eq: "storage m' = storage m2" "embeddingSize m' = embeddingSize m2"
    "initialized m' = initialized m2"
    and ru: "rel_option same_shape (userEmbeddings m2) (userEmbeddings m')"
    and rv: "rel_option same_shape (entityEmbeddings m2) (entityEmbeddings m')"
    by (simp_all add: trained_from_def)
  show ?thesis
  proof (cases "initialized m2")
    case False
    with assms(2) eq show ?thesis by (simp add: sound_def)
  next
    case True
    with assms(2) obtain u v where uv: "userEmbeddings m2 = Some u" "entityEmbeddings m2 = Some v"
      "well_shaped u" "well_shaped v" "cols u = embeddingSize m2" "cols v = embeddingSize m2"
      "shape0 u = length (getAllUsers (storage m2))"
      "shape0 v = length (getAllEntities (storage m2))" "0 < shape0 u" "0 < shape0 v"
      by (auto simp: sound_def)
    from ru rv uv(1,2) obtain u' v' where "userEmbeddings m' = Some u'" "same_shape u u'"
      "entityEmbeddings m' = Some v'" "same_shape v v'"
      by (auto simp: option_rel_Some1)
    with uv assms(2) eq show ?thesis by (auto simp: sound_def same_shape_def)
  qed
qed

lemma registration_and_sizing_sound:
  assumes "sound m" and "registration_and_sizing ops m data = Some (Inr m2)"
    and "data \<noteq> []"
  shows "sound m2 \<and> initialized m2"
proof -
  let ?m1 = "m\<lparr>storage := register_batch (storage m) data\<rparr>"
  from assms(1) have "dense_storage (storage m)" by (simp add: sound_def)
  from register_batch_nonempty [OF this assms(3)]
  have d: "dense_storage (storage ?m1)" and nu: "0 < length (getAllUsers (storage ?m1))"
    and ne: "0 < length (getAllEntities (storage ?m1))" by simp_all
  have mono: "length (getAllUsers (storage m)) \<le> length (getAllUsers (storage ?m1))"
    "length (getAllEntities (storage m)) \<le> length (getAllEntities (storage ?m1))"
    using reverse_apply_calls [of "storage m" "calls_of data"]
    by (simp_all add: register_batch_calls getAllUsers_def getAllEntities_def)
  show ?thesis
  proof (cases "initialized m")
    case False
    with registration_and_sizing_cases [OF assms(2)]
    have "initializeEmbeddings ops ?m1 = Some (Inr m2)" by simp
    from initializeEmbeddings_result [OF this] obtain u2 v2 where
      m2: "m2 = ?m1\<lparr>engine := engine m2, userEmbeddings := Some u2,
                      entityEmbeddings := Some v2, initialized := True\<rparr>"
      and s: "shape0 u2 = length (getAllUsers (storage ?m1))" "cols u2 = embeddingSize ?m1"
        "well_shaped u2" "shape0 v2 = length (getAllEntities (storage ?m1))"
        "cols v2 = embeddingSize ?m1" "well_shaped v2"
      by auto
    have f: "storage m2 = storage ?m1" "userEmbeddings m2 = Some u2"
      "entityEmbeddings m2 = Some v2" "initialized m2" "embeddingSize m2 = embeddingSize ?m1"
      by (subst m2, simp)+
    with s d nu ne show ?thesis by (simp add: sound_def)
  next
    case True
    with registration_and_sizing_cases [OF assms(2)]
    have "resizeEmbeddingsIfNeeded ops ?m1 = Some (Inr m2)" by simp
    from resizeEmbeddingsIfNeeded_result [OF this] obtain u v u2 v2 where
      u: "userEmbeddings m = Some u" and v: "entityEmbeddings m = Some v"
      and gu: "grown u (length (getAllUsers (storage ?m1))) u2"
      and gv: "grown v (length (getAllEntities (storage ?m1))) v2"
      and m2: "m2 = ?m1\<lparr>engine := engine m2, userEmbeddings := Some u2,
                      entityEmbeddings := Some v2\<rparr>"
      by auto
    have f: "storage m2 = storage ?m1" "userEmbeddings m2 = Some u2"
      "entityEmbeddings m2 = Some v2" "initialized m2 = initialized m"
      "embeddingSize m2 = embeddingSize m"
      by (subst m2, simp)+
    from assms(1) True u v have old: "well_shaped u" "well_shaped v"
      "cols u = embeddingSize m" "cols v = embeddingSize m"
      "shape0 u = length (getAllUsers (storage m))"
      "shape0 v = length (getAllEntities (storage m))"
      by (auto simp: sound_def)
    from gu gv old have "well_shaped u2" "well_shaped v2" "cols u2 = embeddingSize m"
      "cols v2 = embeddingSize m" by (simp_all add: grown_def)
    moreover from grown_shape0 [OF gu] grown_shape0 [OF gv] old mono
    have "shape0 u2 = length (getAllUsers (storage ?m1))"
      "shape0 v2 = length (getAllEntities (storage ?m1))" by simp_all
    ultimately show ?thesis using f d nu ne True by (simp add: sound_def)
  qed
qed

lemma fit_sound:
  assumes "sound m" and "fit ops m data = Some (Inr m')"
  shows "sound m' \<and> (data \<noteq> [] \<longrightarrow> initialized m')"
proof (cases "data = []")
  case True
  with assms show ?thesis by (simp add: fit_def)
next
  case False
  from fit_phases [OF assms(2) False] obtain m2 where
    s: "registration_and_sizing ops m data = Some (Inr m2)" and t: "trained_from m2 m'"
    by blast
  from registration_and_sizing_sound [OF assms(1) s False]
  have "sound m2" "initialized m2" by simp_all
  with trained_from_sound [OF t] t show ?thesis by (simp add: trained_from_def)
qed

lemma dense_Map_ok: "dense m r \<Longrightarrow> Map_ok m"
  by (simp add: dense_def Map_ok_def)

lemma sound_round_trip:
  assumes "sound m" and "represented ops m" and "initialized m" and "0 < embeddingSize m"
  shows "\<exists>d. export m = Inr d \<and>
           from_model ops d None = Inr (m\<lparr>engine := train_adam ops (learningRate m)\<rparr>)"
proof -
  from assms(1,3) obtain u v where uv: "userEmbeddings m = Some u" "entityEmbeddings m = Some v"
    and w: "well_shaped u" "well_shaped v" and c: "cols u = embeddingSize m"
    "cols v = embeddingSize m" "0 < shape0 u" "0 < shape0 v"
    by (auto simp: sound_def)
  from assms(2) uv have ok: "Map_ok (userMap (storage m))" "Map_ok (entityMap (storage m))"
    and f: "faithful ops u" "faithful ops v"
    by (simp_all add: represented_def)
  from w have "\<exists>a. array u = Inr a" "\<exists>a. array v = Inr a"
    by (simp_all add: array_returns well_shaped_size)
  with uv assms(3) have "\<exists>d. export m = Inr d" by (auto simp: export_returns)
  then obtain d where d: "export m = Inr d" ..
  from from_export [OF ok uv f d] c assms(4) d show ?thesis by simp
qed

lemma export_sample: "export sample_model = Inr (sample_document True)"
  by (simp add: export_def sample_model_def sample_document_def exportData_def Map_entries_def
      array_def shape0_def Let_def)

lemma represented_sample: "represented sample_engine sample_model"
  by (simp add: represented_def sample_model_def Map_ok_def faithful_def float32_def
      canonical_def well_shaped_def sample_engine_def)

theorem export_from_round_trip_witness:
  "represented sample_engine sample_model \<and> initialized sample_model \<and>
   export sample_model = Inr (sample_document True) \<and>
   from_model sample_engine (sample_document True) None = Inr loaded_model \<and>
   loaded_model =
     sample_model\<lparr>engine := train_adam sample_engine (learningRate sample_model)\<rparr> \<and>
   getEntities loaded_model (IdStr ''u1'') (-1) = Inr [Some (IdStr ''e1'')] \<and>
   getEntities sample_model (IdStr ''u1'') (-1) = Inr [Some (IdStr ''e1'')] \<and>
   getUsers loaded_model (IdNum 7) 10 = getUsers sample_model (IdNum 7) 10"
proof -
  let ?u = "\<lparr>rows = [[7, 8], [3, 4]], cols = 2\<rparr>"
  let ?v = "\<lparr>rows = [[10, 11], [8, 9]], cols = 2\<rparr>"
  note r = represented_sample
  have i: "initialized sample_model \<and> userEmbeddings sample_model = Some ?u \<and>
      entityEmbeddings sample_model = Some ?v \<and> well_shaped ?u \<and> well_shaped ?v \<and>
      0 < shape0 ?u \<and> 0 < cols ?u \<and> 0 < shape0 ?v \<and> 0 < cols ?v"
    by (simp add: sample_model_def well_shaped_def shape0_def)
  have e: "export sample_model = Inr (sample_document True) \<and>
      from_model sample_engine (sample_document True) None = Inr loaded_model"
    using export_sample from_sample by simp
  from export_from_round_trip [OF r, of "sample_document True" loaded_model ?u ?v] e
  have l: "loaded_model =
      sample_model\<lparr>engine := train_adam sample_engine (learningRate sample_model)\<rparr>"
    and q: "\<forall>ident count.
      getEntities loaded_model ident count = getEntities sample_model ident count \<and>
      getUsers loaded_model ident count = getUsers sample_model ident count"
    by blast+
  from export_from_round_trip [OF r, of "sample_document True" loaded_model ?u ?v] i
  have "\<exists>d. export sample_model = Inr d \<and>
      from_model sample_engine d None =
        Inr (sample_model\<lparr>engine := train_adam sample_engine (learningRate sample_model)\<rparr>)"
    by blast
  from q getEntities_sample
  have "getEntities loaded_model (IdStr ''u1'') (-1) = Inr [Some (IdStr ''e1'')]"
    by simp
  with i r e l getEntities_sample q show ?thesis by blast
qed

subsection \<open>Termination and success of fit\<close>

text \<open>
  With a positive batch size every loop of \<^verbatim>\<open>fit\<close> ends: \<^verbatim>\<open>fit\<close> returns a model or
  throws. On a sound model the registration and sizing phases return a model, and the
  only step of the training phase that can throw is the step of the optimizer; with an
  optimizer none of whose steps throws, \<^verbatim>\<open>fit\<close> returns a model. With batch size zero
  the registration loop never advances, and \<^verbatim>\<open>fit\<close> on a non-empty list does not
  return.
\<close>

lemma register_loop_terminates:
  assumes "0 < batchSize m"
  shows "register_loop m data i = Some (m\<lparr>storage := register_batch (storage m) (drop i data)\<rparr>)"
  using assms
proof (induction "length data - i" arbitrary: m i rule: less_induct)
  case less
  show ?case
  proof (cases "i < length data")
    case True
    let ?batch = "take (batchSize m) (drop i data)"
    let ?m1 = "m\<lparr>storage := register_batch (storage m) ?batch\<rparr>"
    from True have sl: "slice data (int i) (int i + int (batchSize m)) = ?batch"
      by (simp add: slice_take_drop)
    from True less.prems have "length data - (i + batchSize m) < length data - i" by simp
    from less.hyps [OF this, of ?m1] less.prems
    have "register_loop ?m1 data (i + batchSize m) =
        Some (?m1\<lparr>storage := register_batch (storage ?m1) (drop (i + batchSize m) data)\<rparr>)"
      by simp
    moreover have "?batch @ drop (i + batchSize m) data = drop i data"
      by (metis add.commute append_take_drop_id drop_drop)
    ultimately show ?thesis
      using True by (subst register_loop.simps) (simp add: Let_def sl register_batch_append [symmetric])
  next
    case False
    then show ?thesis by (subst register_loop.simps) (simp add: register_batch_def)
  qed
qed

lemma register_loop_diverges:
  "register_loop m data i = Some m' \<Longrightarrow> 0 < batchSize m \<or> length data \<le> i"
proof (induction rule: register_loop.raw_induct [rotated 1, consumes 1])
  case (1 loop m data i m')
  show ?case
  proof (cases "i < length data")
    case True
    with 1(2) have "loop (m\<lparr>storage := register_batch (storage m)
        (slice data (int i) (int i + int (batchSize m)))\<rparr>) data (i + batchSize m) = Some m'"
      by (simp add: Let_def)
    from 1(1) [OF this] True show ?thesis by auto
  next
    case False
    then show ?thesis by simp
  qed
qed

lemma createEmbeddings_loop_terminates:
  assumes "0 < b"
  shows "\<exists>r. createEmbeddings_loop ops e b totalSize d i batches = Some r"
  using assms
proof (induction "totalSize - i" arbitrary: e i batches rule: less_induct)
  case less
  show ?case
  proof (cases "i < totalSize")
    case True
    with less.prems have "totalSize - (i + b) < totalSize - i" by simp
    from less.hyps [OF this less.prems] True show ?thesis
      by (subst createEmbeddings_loop.simps) (simp add: Let_def)
  next
    case False
    then show ?thesis by (subst createEmbeddings_loop.simps) simp
  qed
qed

lemma batches_ok_concat0:
  assumes "batches_ok d n batches" and "0 < n"
  shows "\<exists>t. concat0 batches = Inr t"
proof -
  from assms obtain b bs where b: "batches = b # bs"
    by (cases batches) (auto simp: batches_ok_def)
  with assms(1) have "list_all (\<lambda>u. cols u = cols b) bs"
    by (auto simp: batches_ok_def list_all_iff)
  with b show ?thesis by (simp add: concat0_def)
qed

lemma createEmbeddingsInBatches_returns:
  assumes "0 < batchSize m"
  shows "\<exists>e t. createEmbeddingsInBatches ops m totalSize d = Some (Inr (e, t))"
proof (cases "totalSize = 0")
  case True
  then show ?thesis by (simp add: createEmbeddingsInBatches_def)
next
  case False
  let ?b = "min (batchSize m) totalSize"
  from False assms have "0 < ?b" by simp
  from createEmbeddings_loop_terminates [OF this, of ops "engine m" totalSize d 0 "[]"]
  obtain e batches where
    loop: "createEmbeddings_loop ops (engine m) ?b totalSize d 0 [] = Some (e, batches)"
    by auto
  have "batches_ok d (min 0 totalSize) []" by (simp add: batches_ok_def)
  from createEmbeddings_loop_batches [OF loop this] have "batches_ok d totalSize batches" .
  from batches_ok_concat0 [OF this] False obtain t where "concat0 batches = Inr t" by auto
  with loop False show ?thesis by (simp add: createEmbeddingsInBatches_def Let_def)
qed

lemma initializeEmbeddings_returns:
  assumes "0 < batchSize m"
  shows "\<exists>m'. initializeEmbeddings ops m = Some (Inr m')"
proof -
  from createEmbeddingsInBatches_returns [OF assms] obtain e1 u where
    c1: "createEmbeddingsInBatches ops m (length (getAllUsers (storage m))) (embeddingSize m) =
           Some (Inr (e1, u))" by blast
  let ?m1 = "m\<lparr>engine := e1, userEmbeddings := Some u\<rparr>"
  from assms have "0 < batchSize ?m1" by simp
  from createEmbeddingsInBatches_returns [OF this] obtain e2 v where
    c2: "createEmbeddingsInBatches ops ?m1 (length (getAllEntities (storage m)))
           (embeddingSize m) = Some (Inr (e2, v))" by blast
  from c1 c2 show ?thesis by (simp add: initializeEmbeddings_def Let_def)
qed

lemma concat0_pair: "cols new = cols t \<Longrightarrow> \<exists>t'. concat0 [t, new] = Inr t'"
  by (simp add: concat0_def)

lemma resize_users_returns:
  assumes "0 < batchSize m" and "userEmbeddings m = Some u" and "cols u = embeddingSize m"
  shows "\<exists>m'. resize_users ops m n = Some (Inr m')"
proof (cases "n > shape0 u")
  case True
  from createEmbeddingsInBatches_returns [OF assms(1)] obtain e new where
    c: "createEmbeddingsInBatches ops m (n - shape0 u) (embeddingSize m) = Some (Inr (e, new))"
    by blast
  from createEmbeddingsInBatches_shape [OF c] assms(3) have "cols new = cols u" by simp
  from concat0_pair [OF this] obtain t where "concat0 [u, new] = Inr t" ..
  with c True assms(2) show ?thesis by (simp add: resize_users_def Let_def)
next
  case False
  with assms(2) show ?thesis by (simp add: resize_users_def)
qed

lemma resize_entities_returns:
  assumes "0 < batchSize m" and "entityEmbeddings m = Some v" and "cols v = embeddingSize m"
  shows "\<exists>m'. resize_entities ops m n = Some (Inr m')"
proof (cases "n > shape0 v")
  case True
  from createEmbeddingsInBatches_returns [OF assms(1)] obtain e new where
    c: "createEmbeddingsInBatches ops m (n - shape0 v) (embeddingSize m) = Some (Inr (e, new))"
    by blast
  from createEmbeddingsInBatches_shape [OF c] assms(3) have "cols new = cols v" by simp
  from concat0_pair [OF this] obtain t where "concat0 [v, new] = Inr t" ..
  with c True assms(2) show ?thesis by (simp add: resize_entities_def Let_def)
next
  case False
  with assms(2) show ?thesis by (simp add: resize_entities_def)
qed

lemma resizeEmbeddingsIfNeeded_returns:
  assumes "0 < batchSize m" and "userEmbeddings m = Some u" and "cols u = embeddingSize m"
    and "entityEmbeddings m = Some v" and "cols v = embeddingSize m"
  shows "\<exists>m'. resizeEmbeddingsIfNeeded ops m = Some (Inr m')"
proof -
  from resize_users_returns [OF assms(1-3)] obtain m1 where
    r1: "resize_users ops m (length (getAllUsers (storage m))) = Some (Inr m1)" by blast
  from resize_users_result [OF r1] obtain u' where
    m1: "m1 = m\<lparr>engine := engine m1, userEmbeddings := Some u'\<rparr>" by blast
  have f: "batchSize m1 = batchSize m" "entityEmbeddings m1 = entityEmbeddings m"
    "embeddingSize m1 = embeddingSize m"
    by (subst m1, simp)+
  with assms have "0 < batchSize m1" "entityEmbeddings m1 = Some v" "cols v = embeddingSize m1"
    by simp_all
  from resize_entities_returns [OF this] obtain m' where
    "resize_entities ops m1 (length (getAllEntities (storage m))) = Some (Inr m')" by blast
  with r1 show ?thesis by (simp add: resizeEmbeddingsIfNeeded_def Let_def)
qed

lemma registration_and_sizing_returns:
  assumes "sound m" and "0 < batchSize m"
  shows "\<exists>m2. registration_and_sizing ops m data = Some (Inr m2)"
proof -
  let ?m1 = "m\<lparr>storage := register_batch (storage m) data\<rparr>"
  from register_loop_terminates [OF assms(2), of data 0]
  have r: "registerUsersAndEntitiesInBatches m data = Some ?m1"
    by (simp add: registerUsersAndEntitiesInBatches_def)
  from assms(2) have b: "0 < batchSize ?m1" by simp
  show ?thesis
  proof (cases "initialized m")
    case False
    with initializeEmbeddings_returns [OF b, of ops] r show ?thesis
      by (simp add: registration_and_sizing_def)
  next
    case True
    with assms(1) obtain u v where "userEmbeddings ?m1 = Some u" "cols u = embeddingSize ?m1"
      "entityEmbeddings ?m1 = Some v" "cols v = embeddingSize ?m1"
      by (auto simp: sound_def)
    from resizeEmbeddingsIfNeeded_returns [OF b this, of ops] True r show ?thesis
      by (simp add: registration_and_sizing_def)
  qed
qed

lemma train_interaction_returns:
  assumes "minimize_returns ops" and "sound m" and "initialized m"
  shows "\<exists>m'. train_interaction ops m x = Inr m'"
proof -
  from assms(2,3) obtain u v where uv: "userEmbeddings m = Some u" "entityEmbeddings m = Some v"
    and c: "cols u = embeddingSize m" "cols v = embeddingSize m"
    "shape0 u = length (getAllUsers (storage m))"
    "shape0 v = length (getAllEntities (storage m))"
    and du: "dense (userMap (storage m)) (reverseUserMap (storage m))"
    and de: "dense (entityMap (storage m)) (reverseEntityMap (storage m))"
    by (auto simp: sound_def dense_storage_def)
  show ?thesis
  proof (cases "getUserIndex (storage m) (user x)")
    case None
    then show ?thesis by (simp add: train_interaction_def)
  next
    case (Some i)
    note i = this
    show ?thesis
    proof (cases "getEntityIndex (storage m) (entity x)")
      case None
      with i show ?thesis by (simp add: train_interaction_def)
    next
      case (Some j)
      from i c dense_lookup [OF du] dense_length [OF du]
      have "i < shape0 u" by (simp add: getUserIndex_get getAllUsers_def)
      with c obtain userVec where su: "slice_row u i (embeddingSize m) = Inr userVec"
        by (simp add: slice_row_def)
      from Some c dense_lookup [OF de] dense_length [OF de]
      have "j < shape0 v" by (simp add: getEntityIndex_get getAllEntities_def)
      with c obtain entityVec where sv: "slice_row v j (embeddingSize m) = Inr entityVec"
        by (simp add: slice_row_def)
      from assms(1) obtain r where
        "minimize ops (engine m) u v i j (embeddingSize m)
           (case rating x of None \<Rightarrow> 1 | Some r \<Rightarrow> r) = Inr r"
        unfolding minimize_returns_def by blast
      with i Some uv su sv show ?thesis
        by (simp add: train_interaction_def Let_def)
    qed
  qed
qed

lemma train_batch_returns:
  assumes "minimize_returns ops"
  shows "sound m \<Longrightarrow> initialized m \<Longrightarrow> \<exists>m'. train_batch ops m xs = Inr m'"
proof (induction xs arbitrary: m)
  case Nil
  show ?case by simp
next
  case (Cons x xs)
  from train_interaction_returns [OF assms Cons.prems] obtain m1 where
    a: "train_interaction ops m x = Inr m1" ..
  from train_interaction_shape [OF a] have t: "trained_from m m1" .
  from trained_from_sound [OF t Cons.prems(1)] t Cons.prems(2)
  have "sound m1" "initialized m1" by (simp_all add: trained_from_def)
  from Cons.IH [OF this] a show ?case by simp
qed

lemma train_loop_returns:
  assumes "minimize_returns ops"
  shows "sound m \<Longrightarrow> initialized m \<Longrightarrow> 0 < batchSize m \<Longrightarrow>
         \<exists>m'. train_loop ops m data i = Some (Inr m')"
proof (induction "length data - i" arbitrary: m i rule: less_induct)
  case less
  show ?case
  proof (cases "i < length data")
    case True
    let ?batch = "slice data (int i) (int i + int (batchSize m))"
    from train_batch_returns [OF assms less.prems(1,2)] obtain m1 where
      a: "train_batch ops m ?batch = Inr m1" ..
    from train_batch_shape [OF a] have t: "trained_from m m1" .
    from trained_from_sound [OF t less.prems(1)] t less.prems(2,3)
    have p: "sound m1" "initialized m1" "0 < batchSize m1"
      by (simp_all add: trained_from_def)
    from True p(3) have "length data - (i + batchSize m1) < length data - i" by simp
    from less.hyps [OF this p] a True show ?thesis
      by (subst train_loop.simps) (simp add: Let_def)
  next
    case False
    then show ?thesis by (subst train_loop.simps) simp
  qed
qed

lemma epoch_loop_returns:
  assumes "minimize_returns ops"
  shows "sound m \<Longrightarrow> initialized m \<Longrightarrow> 0 < batchSize m \<Longrightarrow>
         \<exists>m'. epoch_loop ops m data e = Some (Inr m')"
proof (induction "epoch m - e" arbitrary: m e rule: less_induct)
  case less
  show ?case
  proof (cases "e < epoch m")
    case True
    from train_loop_returns [OF assms less.prems, of data 0] obtain m1 where
      a: "trainEpochInBatches ops m data = Some (Inr m1)"
      by (auto simp: trainEpochInBatches_def)
    then have "train_loop ops m data 0 = Some (Inr m1)" by (simp add: trainEpochInBatches_def)
    from train_loop_shape [OF this] have t: "trained_from m m1" by simp
    from trained_from_sound [OF t less.prems(1)] t less.prems(2,3)
    have p: "sound m1" "initialized m1" "0 < batchSize m1" and e: "epoch m1 = epoch m"
      by (simp_all add: trained_from_def)
    from True e have "epoch m1 - (e + 1) < epoch m - e" by simp
    from less.hyps [OF this p] a True show ?thesis
      by (subst epoch_loop.simps) simp
  next
    case False
    then show ?thesis by (subst epoch_loop.simps) simp
  qed
qed

lemma registration_and_sizing_batchSize:
  assumes "registration_and_sizing ops m data = Some (Inr m2)"
  shows "batchSize m2 = batchSize m"
proof (cases "initialized m")
  case False
  with registration_and_sizing_cases [OF assms]
  have "initializeEmbeddings ops (m\<lparr>storage := register_batch (storage m) data\<rparr>) =
      Some (Inr m2)" by simp
  from initializeEmbeddings_result [OF this] obtain u v where
    m2: "m2 = m\<lparr>storage := register_batch (storage m) data\<rparr>
      \<lparr>engine := engine m2, userEmbeddings := Some u, entityEmbeddings := Some v,
       initialized := True\<rparr>" by blast
  show ?thesis by (subst m2) simp
next
  case True
  with registration_and_sizing_cases [OF assms]
  have "resizeEmbeddingsIfNeeded ops (m\<lparr>storage := register_batch (storage m) data\<rparr>) =
      Some (Inr m2)" by simp
  from resizeEmbeddingsIfNeeded_result [OF this] obtain u v where
    m2: "m2 = m\<lparr>storage := register_batch (storage m) data\<rparr>
      \<lparr>engine := engine m2, userEmbeddings := Some u, entityEmbeddings := Some v\<rparr>"
    by blast
  show ?thesis by (subst m2) simp
qed

lemma fit_returns:
  assumes "minimize_returns ops" and "sound m" and "0 < batchSize m"
  shows "\<exists>m'. fit ops m data = Some (Inr m')"
proof (cases "data = []")
  case True
  then show ?thesis by (simp add: fit_def)
next
  case False
  from registration_and_sizing_returns [OF assms(2,3)] obtain m2 where
    s: "registration_and_sizing ops m data = Some (Inr m2)" ..
  from registration_and_sizing_sound [OF assms(2) s False]
  have p: "sound m2" "initialized m2" by simp_all
  from registration_and_sizing_batchSize [OF s] assms(3) have "0 < batchSize m2" by simp
  from epoch_loop_returns [OF assms(1) p this, of data 0] s False show ?thesis
    by (simp add: fit_def)
qed

lemma train_loop_terminates:
  "0 < batchSize m \<Longrightarrow> \<exists>r. train_loop ops m data i = Some r"
proof (induction "length data - i" arbitrary: m i rule: less_induct)
  case less
  show ?case
  proof (cases "i < length data")
    case True
    let ?batch = "slice data (int i) (int i + int (batchSize m))"
    show ?thesis
    proof (cases "train_batch ops m ?batch")
      case (Inl err)
      with True show ?thesis by (subst train_loop.simps) (simp add: Let_def)
    next
      case (Inr m1)
      from train_batch_shape [OF Inr] less.prems have p: "0 < batchSize m1"
        by (simp add: trained_from_def)
      with True have "length data - (i + batchSize m1) < length data - i" by simp
      from less.hyps [OF this p] Inr True show ?thesis
        by (subst train_loop.simps) (simp add: Let_def)
    qed
  next
    case False
    then show ?thesis by (subst train_loop.simps) simp
  qed
qed

lemma epoch_loop_terminates:
  "0 < batchSize m \<Longrightarrow> \<exists>r. epoch_loop ops m data e = Some r"
proof (induction "epoch m - e" arbitrary: m e rule: less_induct)
  case less
  show ?case
  proof (cases "e < epoch m")
    case True
    from train_loop_terminates [OF less.prems, of ops data 0] obtain r1 where
      a: "train_loop ops m data 0 = Some r1" ..
    show ?thesis
    proof (cases r1)
      case (Inl err)
      with a True show ?thesis
        by (subst epoch_loop.simps) (simp add: trainEpochInBatches_def)
    next
      case (Inr m1)
      with train_loop_shape [OF a] have t: "trained_from m m1" by simp
      with less.prems have p: "0 < batchSize m1" and e: "epoch m1 = epoch m"
        by (simp_all add: trained_from_def)
      from True e have "epoch m1 - (e + 1) < epoch m - e" by simp
      from less.hyps [OF this p] a Inr True show ?thesis
        by (subst epoch_loop.simps) (simp add: trainEpochInBatches_def)
    qed
  next
    case False
    then show ?thesis by (subst epoch_loop.simps) simp
  qed
qed

lemma resize_users_terminates:
  assumes "0 < batchSize m"
  shows "\<exists>r. resize_users ops m n = Some r"
proof (cases "userEmbeddings m")
  case None
  then show ?thesis by (simp add: resize_users_def)
next
  case (Some t)
  show ?thesis
  proof (cases "n > shape0 t")
    case True
    from createEmbeddingsInBatches_returns [OF assms] obtain e new where
      c: "createEmbeddingsInBatches ops m (n - shape0 t) (embeddingSize m) = Some (Inr (e, new))"
      by blast
    with Some True show ?thesis
      by (cases "concat0 [t, new]") (simp_all add: resize_users_def Let_def)
  next
    case False
    with Some show ?thesis by (simp add: resize_users_def)
  qed
qed

lemma resize_entities_terminates:
  assumes "0 < batchSize m"
  shows "\<exists>r. resize_entities ops m n = Some r"
proof (cases "entityEmbeddings m")
  case None
  then show ?thesis by (simp add: resize_entities_def)
next
  case (Some t)
  show ?thesis
  proof (cases "n > shape0 t")
    case True
    from createEmbeddingsInBatches_returns [OF assms] obtain e new where
      c: "createEmbeddingsInBatches ops m (n - shape0 t) (embeddingSize m) = Some (Inr (e, new))"
      by blast
    with Some True show ?thesis
      by (cases "concat0 [t, new]") (simp_all add: resize_entities_def Let_def)
  next
    case False
    with Some show ?thesis by (simp add: resize_entities_def)
  qed
qed

lemma registration_and_sizing_terminates:
  assumes "0 < batchSize m"
  shows "\<exists>r. registration_and_sizing ops m data = Some r"
proof -
  let ?m1 = "m\<lparr>storage := register_batch (storage m) data\<rparr>"
  from register_loop_terminates [OF assms, of data 0]
  have r: "registerUsersAndEntitiesInBatches m data = Some ?m1"
    by (simp add: registerUsersAndEntitiesInBatches_def)
  from assms have b: "0 < batchSize ?m1" by simp
  show ?thesis
  proof (cases "initialized m")
    case False
    with initializeEmbeddings_returns [OF b, of ops] r show ?thesis
      by (auto simp: registration_and_sizing_def)
  next
    case True
    let ?n = "length (getAllUsers (storage ?m1))"
    from resize_users_terminates [OF b] obtain r1 where
      r1: "resize_users ops ?m1 ?n = Some r1" ..
    have "\<exists>r. resizeEmbeddingsIfNeeded ops ?m1 = Some r"
    proof (cases r1)
      case (Inl err)
      with r1 show ?thesis by (simp add: resizeEmbeddingsIfNeeded_def Let_def)
    next
      case (Inr m1')
      with r1 resize_users_result [of ops ?m1 ?n m1'] obtain u' where
        m1': "m1' = ?m1\<lparr>engine := engine m1', userEmbeddings := Some u'\<rparr>" by blast
      have "batchSize m1' = batchSize ?m1" by (subst m1') simp
      with b have "0 < batchSize m1'" by simp
      from resize_entities_terminates [OF this] r1 Inr show ?thesis
        by (simp add: resizeEmbeddingsIfNeeded_def Let_def)
    qed
    with True r show ?thesis by (simp add: registration_and_sizing_def)
  qed
qed

lemma fit_terminates:
  assumes "0 < batchSize m"
  shows "\<exists>r. fit ops m data = Some r"
proof (cases "data = []")
  case True
  then show ?thesis by (simp add: fit_def)
next
  case False
  from registration_and_sizing_terminates [OF assms] obtain r where
    s: "registration_and_sizing ops m data = Some r" ..
  show ?thesis
  proof (cases r)
    case (Inl err)
    with s False show ?thesis by (simp add: fit_def)
  next
    case (Inr m2)
    with s registration_and_sizing_batchSize [of ops m data m2] assms
    have "0 < batchSize m2" by simp
    from epoch_loop_terminates [OF this] s Inr False show ?thesis
      by (simp add: fit_def)
  qed
qed

lemma fit_diverges:
  assumes "batchSize m = 0" and "data \<noteq> []"
  shows "fit ops m data = None"
proof -
  have "registerUsersAndEntitiesInBatches m data = None"
  proof (cases "registerUsersAndEntitiesInBatches m data")
    case None
    then show ?thesis .
  next
    case (Some m')
    then have "register_loop m data 0 = Some m'"
      by (simp add: registerUsersAndEntitiesInBatches_def)
    from register_loop_diverges [OF this] assms show ?thesis by simp
  qed
  with assms(2) show ?thesis by (simp add: fit_def registration_and_sizing_def)
qed

end
